theory Spec2Isabelle
  imports Main
begin

section \<open>The Reversi board engine of \<^verbatim>\<open>reversi.py\<close>\<close>

text \<open>
  The class \<^verbatim>\<open>ReversiGame\<close> keeps the board from the point of view of the player to
  move: \<open>1\<close> is a piece of the current player, \<open>-1\<close> a piece of the opponent,
  \<open>0\<close> an empty square. Python integers are unbounded, so they are \<open>int\<close>; the board
  is a list of rows; the dictionary \<^verbatim>\<open>move_dict\<close> is a map from squares to sets of
  squares; \<^verbatim>\<open>possible_moves\<close> is a list of squares. A coordinate argument of
  \<^verbatim>\<open>make_move\<close> is an \<open>int option\<close>, \<open>None\<close> being Python's \<^verbatim>\<open>None\<close>.
\<close>

type_synonym coord = "int \<times> int"

type_synonym grid = "int list list"

datatype error = ValueError | IndexError | TypeError | KeyError

record ReversiGame =
  height :: int
  width :: int
  board :: grid
  curr_player :: int
  move_dict :: "coord \<rightharpoonup> coord set"
  possible_moves :: "coord list"

subsection \<open>List indexing\<close>

text \<open>
  Python's \<^verbatim>\<open>xs[i]\<close>: a negative index counts from the end, and an index outside the
  list raises \<^verbatim>\<open>IndexError\<close>. The constructor is the one place where an index can
  leave the list (for dimensions that are even and not positive), so its four
  assignments go through \<open>setitem2\<close>.
\<close>

definition py_index :: "nat \<Rightarrow> int \<Rightarrow> error + nat" where
  "py_index n i =
     (let k = (if i < 0 then i + int n else i)
      in if 0 \<le> k \<and> k < int n then Inr (nat k) else Inl IndexError)"

definition setitem2 :: "grid \<Rightarrow> int \<Rightarrow> int \<Rightarrow> int \<Rightarrow> error + grid" where
  "setitem2 b i j v =
     (case py_index (length b) i of
        Inl e \<Rightarrow> Inl e
      | Inr r \<Rightarrow>
          (case py_index (length (b ! r)) j of
             Inl e \<Rightarrow> Inl e
           | Inr c \<Rightarrow> Inr (b[r := (b ! r)[c := v]])))"

text \<open>
  Everywhere else an index is compared with \<^verbatim>\<open>height\<close> and \<^verbatim>\<open>width\<close> before
  it is used, or comes out of \<^verbatim>\<open>move_dict\<close>; on a board of \<open>height\<close> rows of
  \<open>width\<close> squares (predicate \<open>shape\<close> below, part of the invariant \<open>game_inv\<close>
  of the reachable states; lemmas \<open>walk_inside\<close> and \<open>move_dict_inside\<close>) such an
  index is inside the list, and the read and the write are the plain ones.
\<close>

definition cell :: "grid \<Rightarrow> int \<Rightarrow> int \<Rightarrow> int" where
  "cell b i j = b ! nat i ! nat j"

definition set_cell :: "grid \<Rightarrow> int \<Rightarrow> int \<Rightarrow> int \<Rightarrow> grid" where
  "set_cell b i j v = b[nat i := (b ! nat i)[nat j := v]]"

text \<open>
  \<^verbatim>\<open>for x,y in s: self.board[x][y] = v\<close> over a set \<open>s\<close> of squares of the board:
  every square of \<open>s\<close> gets \<open>v\<close>, whatever order the set is walked in (lemma
  \<open>fold_set_cell\<close> below).
\<close>

definition set_cells :: "grid \<Rightarrow> coord set \<Rightarrow> int \<Rightarrow> grid" where
  "set_cells b s v =
     map (\<lambda>(x, row). map (\<lambda>(y, c). if (int x, int y) \<in> s then v else c) (enumerate 0 row))
       (enumerate 0 b)"

subsection \<open>\<^verbatim>\<open>update_move_dict\<close>\<close>

definition directions :: "(int \<times> int) list" where
  "directions = [(-1, -1), (-1, 0), (-1, 1), (0, -1), (0, 1), (1, -1), (1, 0), (1, 1)]"

text \<open>
  The \<^verbatim>\<open>while\<close> loop of \<^verbatim>\<open>update_move_dict\<close>, from the cursor \<open>(ci, cj)\<close> in the
  direction \<open>(h, v)\<close>; it returns the cursor and the set \<^verbatim>\<open>flipped\<close> it stops with.
  The source runs it for the eight members of \<open>directions\<close> only. The test
  \<open>(h, v) \<noteq> (0, 0)\<close> is not in the source: a HOL function is total, and in the
  direction \<open>(0, 0)\<close> the loop would not move. Lemma \<open>walk_unfold\<close> shows that
  the test is always passed for the directions of the source.
\<close>

function walk ::
  "grid \<Rightarrow> int \<Rightarrow> int \<Rightarrow> int \<Rightarrow> int \<Rightarrow> int \<Rightarrow> int \<Rightarrow> coord set \<Rightarrow> int \<times> int \<times> coord set"
where
  "walk b H W h v ci cj flipped =
     (if cell b ci cj = -1 \<and> (h, v) \<noteq> (0, 0) then
        (if ci + h < 0 \<or> ci + h > H - 1 \<or> cj + v < 0 \<or> cj + v > W - 1
         then (ci, cj, flipped)
         else walk b H W h v (ci + h) (cj + v) (insert (ci, cj) flipped))
      else (ci, cj, flipped))"
  by pat_completeness auto
termination
  by (relation "measure (\<lambda>(b, H, W, h, v, ci, cj, flipped).
        if 0 < h then nat (H - ci) else if h < 0 then nat (ci + 1)
        else if 0 < v then nat (W - cj) else nat (cj + 1))") auto

declare walk.simps [simp del]

text \<open>
  One pass of the loop \<^verbatim>\<open>for h,v in directions\<close> for the empty square \<open>(i, j)\<close>:
  the set that \<^verbatim>\<open>self.move_dict[(i,j)].update(flipped)\<close> adds, which is empty when
  the pass ends in \<^verbatim>\<open>continue\<close> or does not stop on a piece of the current player.
\<close>

definition captures_dir :: "grid \<Rightarrow> int \<Rightarrow> int \<Rightarrow> int \<Rightarrow> int \<Rightarrow> int \<times> int \<Rightarrow> coord set" where
  "captures_dir b H W i j d =
     (case d of (h, v) \<Rightarrow>
        (let cursor_i = i + h; cursor_j = j + v in
         if cursor_i < 0 \<or> cursor_i > H - 1 \<or> cursor_j < 0 \<or> cursor_j > W - 1 then {}
         else (case walk b H W h v cursor_i cursor_j {} of
                 (ci, cj, flipped) \<Rightarrow> if cell b ci cj = 1 then flipped else {})))"

text \<open>
  The value of \<^verbatim>\<open>move_dict[(i,j)]\<close> when the loops are over: it starts as the empty
  set, only the passes for \<open>(i, j)\<close> itself add to it, and only when the square is
  empty.
\<close>

definition captures :: "grid \<Rightarrow> int \<Rightarrow> int \<Rightarrow> coord \<Rightarrow> coord set" where
  "captures b H W k =
     (case k of (i, j) \<Rightarrow>
        if cell b i j = 0
        then fold (\<lambda>d acc. acc \<union> captures_dir b H W i j d) directions {}
        else {})"

text \<open>
  The keys of the dictionary comprehension
  \<^verbatim>\<open>{(x,y):set() for x in range(self.height) for y in range(self.width)}\<close>, in
  its order.
\<close>

definition squares :: "int \<Rightarrow> int \<Rightarrow> coord list" where
  "squares H W = concat (map (\<lambda>x. map (\<lambda>y. (x, y)) [0..W - 1]) [0..H - 1])"

definition update_move_dict :: "ReversiGame \<Rightarrow> ReversiGame" where
  "update_move_dict g =
     (let md = map_of (map (\<lambda>k. (k, captures (board g) (height g) (width g) k))
                        (squares (height g) (width g)))
      in g\<lparr>move_dict := md,
            possible_moves :=
              filter (\<lambda>x. case md x of None \<Rightarrow> False | Some s \<Rightarrow> s \<noteq> {})
                (squares (height g) (width g))\<rparr>)"

subsection \<open>\<^verbatim>\<open>flip_board\<close>, \<^verbatim>\<open>__init__\<close>, \<^verbatim>\<open>make_move\<close>, \<^verbatim>\<open>check_winner\<close>\<close>

definition flip_board :: "ReversiGame \<Rightarrow> ReversiGame" where
  "flip_board g = g\<lparr>board := map (\<lambda>j. map (\<lambda>i. - i) j) (board g)\<rparr>"

text \<open>
  The constructor returns the new object, or the exception it raises: \<^verbatim>\<open>ValueError\<close>
  from its own test, \<^verbatim>\<open>IndexError\<close> from one of the four assignments.
\<close>

definition init :: "int \<Rightarrow> int \<Rightarrow> error + ReversiGame" where
  "init h w =
     (if h mod 2 \<noteq> 0 \<or> w mod 2 \<noteq> 0 then Inl ValueError
      else
        (case setitem2 (replicate (nat h) (replicate (nat w) 0)) (h div 2 - 1) (w div 2 - 1) 1 of
           Inl e \<Rightarrow> Inl e
         | Inr b1 \<Rightarrow>
        (case setitem2 b1 (h div 2) (w div 2 - 1) (- 1) of
           Inl e \<Rightarrow> Inl e
         | Inr b2 \<Rightarrow>
        (case setitem2 b2 (h div 2 - 1) (w div 2) (- 1) of
           Inl e \<Rightarrow> Inl e
         | Inr b3 \<Rightarrow>
        (case setitem2 b3 (h div 2) (w div 2) 1 of
           Inl e \<Rightarrow> Inl e
         | Inr b4 \<Rightarrow>
             Inr (update_move_dict
               \<lparr>height = h, width = w, board = b4, curr_player = 1,
                move_dict = map_of (map (\<lambda>k. (k, {})) (squares h w)),
                possible_moves = []\<rparr>))))))"

text \<open>
  A call of \<^verbatim>\<open>make_move\<close> returns normally, \<open>Inr\<close> of the state it leaves, or
  raises, \<open>Inl\<close> of the exception and of the state the object is in at that
  moment. In \<^verbatim>\<open>i<0 or i>self.height-1 or j<0 or j>self.width-1\<close> the tests are made
  from left to right and the first true one ends them; comparing \<^verbatim>\<open>None\<close> with
  an integer raises \<^verbatim>\<open>TypeError\<close> (Python 3, which the source is written for).
\<close>

definition make_move ::
  "ReversiGame \<Rightarrow> int option \<Rightarrow> int option \<Rightarrow> error \<times> ReversiGame + ReversiGame" where
  "make_move g i j =
     (if i = None \<and> j = None then
        Inr ((flip_board g)\<lparr>curr_player := curr_player g * - 1\<rparr>)
      else
        (case i of
           None \<Rightarrow> Inl (TypeError, g)
         | Some i' \<Rightarrow>
             if i' < 0 \<or> i' > height g - 1 then Inl (IndexError, g)
             else
               (case j of
                  None \<Rightarrow> Inl (TypeError, g)
                | Some j' \<Rightarrow>
                    if j' < 0 \<or> j' > width g - 1 then Inl (IndexError, g)
                    else
                      (case move_dict g (i', j') of
                         None \<Rightarrow> Inl (KeyError, g)
                       | Some s \<Rightarrow>
                           if s = {} then Inl (ValueError, g)
                           else
                             (let g1 = g\<lparr>board := set_cells (set_cell (board g) i' j' 1) s 1\<rparr>;
                                  g2 = update_move_dict (flip_board g1)
                              in Inr (g2\<lparr>curr_player := curr_player g2 * - 1\<rparr>))))))"

text \<open>
  \<^verbatim>\<open>check_winner\<close> returns its pair and the state it leaves the object in.
\<close>

definition check_winner :: "ReversiGame \<Rightarrow> (bool \<times> int) \<times> ReversiGame" where
  "check_winner g =
     (let (opp_out_of_moves, g') =
            (if possible_moves g = [] then
               (let g1 = update_move_dict (flip_board g)
                in (possible_moves g1 = [], update_move_dict (flip_board g1)))
             else (False, g))
      in if opp_out_of_moves then
           (let s = sum_list (map sum_list (board g')) in
            if s > 0 then ((True, curr_player g'), g')
            else if s < 0 then ((True, - curr_player g'), g')
            else ((True, 0), g'))
         else ((False, 0), g'))"

subsection \<open>\<^verbatim>\<open>fancy_print\<close>\<close>

text \<open>
  What \<^verbatim>\<open>fancy_print\<close> does to the state: when the second player is to move it
  flips the board before printing and flips it back afterwards. The printing in
  between only reads the board and \<^verbatim>\<open>move_dict\<close>. (\<^verbatim>\<open>print_board\<close> changes nothing.)
\<close>

definition fancy_print :: "ReversiGame \<Rightarrow> ReversiGame" where
  "fancy_print g =
     (let g1 = (if curr_player g = - 1 then flip_board g else g)
      in if curr_player g1 = - 1 then flip_board g1 else g1)"

subsection \<open>The states a game goes through\<close>

text \<open>
  A state is reachable when it is made by the constructor, or left on a reachable
  state by a call of \<^verbatim>\<open>make_move\<close> (returning or raising), of \<^verbatim>\<open>check_winner\<close>, of
  \<^verbatim>\<open>fancy_print\<close> or of \<^verbatim>\<open>update_move_dict\<close>. These are the calls \<^verbatim>\<open>play_game\<close>
  makes, and \<^verbatim>\<open>update_move_dict\<close>. (\<^verbatim>\<open>flip_board\<close> is left out: its docstring
  says not to call it on its own.)
\<close>

inductive reachable :: "ReversiGame \<Rightarrow> bool" where
  reachable_init: "init h w = Inr g \<Longrightarrow> reachable g"
| reachable_move: "reachable g \<Longrightarrow> make_move g i j = Inr g' \<Longrightarrow> reachable g'"
| reachable_raise: "reachable g \<Longrightarrow> make_move g i j = Inl (e, g') \<Longrightarrow> reachable g'"
| reachable_check: "reachable g \<Longrightarrow> reachable (snd (check_winner g))"
| reachable_print: "reachable g \<Longrightarrow> reachable (fancy_print g)"
| reachable_update: "reachable g \<Longrightarrow> reachable (update_move_dict g)"

subsection \<open>Predicates and measures used in the statements\<close>

text \<open>
  \<open>inside H W k\<close>: the square \<open>k\<close> is on a board of \<open>H\<close> rows and \<open>W\<close> columns.
  \<open>shape H W b\<close>: the list \<open>b\<close> has \<open>H\<close> rows of \<open>W\<close> squares each.
  \<open>cells_ok b\<close>: every square holds \<open>1\<close>, \<open>0\<close> or \<open>-1\<close>.
\<close>

definition inside :: "int \<Rightarrow> int \<Rightarrow> coord \<Rightarrow> bool" where
  "inside H W k \<longleftrightarrow> (case k of (x, y) \<Rightarrow> 0 \<le> x \<and> x < H \<and> 0 \<le> y \<and> y < W)"

definition shape :: "int \<Rightarrow> int \<Rightarrow> grid \<Rightarrow> bool" where
  "shape H W b \<longleftrightarrow> length b = nat H \<and> (\<forall>row \<in> set b. length row = nat W)"

definition cells_ok :: "grid \<Rightarrow> bool" where
  "cells_ok b \<longleftrightarrow> (\<forall>row \<in> set b. \<forall>c \<in> set row. c = 1 \<or> c = 0 \<or> c = - 1)"

text \<open>The number of squares of the board whose value satisfies \<open>P\<close>.\<close>

definition count_cells :: "(int \<Rightarrow> bool) \<Rightarrow> grid \<Rightarrow> nat" where
  "count_cells P b = length (filter P (concat b))"

text \<open>
  The moves the player to move has on the board as it is: the squares for which
  \<^verbatim>\<open>update_move_dict\<close>, run now, would record a capture. \<^verbatim>\<open>possible_moves\<close> is the
  list the object holds, which is this list only if it was computed for this board.
\<close>

definition legal :: "ReversiGame \<Rightarrow> coord list" where
  "legal g =
     filter (\<lambda>k. captures (board g) (height g) (width g) k \<noteq> {}) (squares (height g) (width g))"

text \<open>
  \<open>cached g b\<close>: the dictionary and the list that \<open>g\<close> holds are the ones
  \<^verbatim>\<open>update_move_dict\<close> computes for the board \<open>b\<close>.
\<close>

definition cached :: "ReversiGame \<Rightarrow> grid \<Rightarrow> bool" where
  "cached g b \<longleftrightarrow>
     move_dict g = move_dict (update_move_dict (g\<lparr>board := b\<rparr>)) \<and>
     possible_moves g = possible_moves (update_move_dict (g\<lparr>board := b\<rparr>))"

text \<open>
  The invariant of the reachable states (lemma \<open>reachable_game_inv\<close>): the board
  has the dimensions the object records and holds only \<open>1\<close>, \<open>0\<close>, \<open>-1\<close>, the
  player is \<open>1\<close> or \<open>-1\<close>, and the cache was computed for the board or for the
  board of the other player (what a pass leaves).
\<close>

definition game_inv :: "ReversiGame \<Rightarrow> bool" where
  "game_inv g \<longleftrightarrow>
     0 < height g \<and> 0 < width g \<and> shape (height g) (width g) (board g) \<and> cells_ok (board g) \<and>
     (curr_player g = 1 \<or> curr_player g = - 1) \<and>
     (cached g (board g) \<or> cached g (map (\<lambda>j. map (\<lambda>i. - i) j) (board g)))"

text \<open>
  The board the constructor builds when its four assignments are inside the lists
  (lemma \<open>init_even_positive\<close>).
\<close>

definition start_board :: "int \<Rightarrow> int \<Rightarrow> grid" where
  "start_board h w =
     set_cell (set_cell (set_cell (set_cell (replicate (nat h) (replicate (nat w) 0))
       (h div 2 - 1) (w div 2 - 1) 1) (h div 2) (w div 2 - 1) (- 1))
       (h div 2 - 1) (w div 2) (- 1)) (h div 2) (w div 2) 1"

text \<open>
  The state with board \<open>b\<close> and player \<open>p\<close> to move whose cache is the one
  \<^verbatim>\<open>update_move_dict\<close> computes for \<open>b\<close>; the states of the example games are written
  with it.
\<close>

definition position :: "int \<Rightarrow> int \<Rightarrow> grid \<Rightarrow> int \<Rightarrow> ReversiGame" where
  "position H W b p =
     update_move_dict \<lparr>height = H, width = W, board = b, curr_player = p,
       move_dict = Map.empty, possible_moves = []\<rparr>"

section \<open>Boards\<close>

lemma set_squares: "set (squares H W) = {k. inside H W k}"
  by (auto simp: squares_def inside_def)

lemma map_of_tabulate:
  "map_of (map (\<lambda>k. (k, f k)) ks) k = (if k \<in> set ks then Some (f k) else None)"
  by (induction ks) auto

lemma shape_flip: "shape H W b \<Longrightarrow> shape H W (map (\<lambda>j. map (\<lambda>i. - i) j) b)"
  by (auto simp: shape_def)

lemma cell_flip:
  "shape H W b \<Longrightarrow> inside H W (x, y) \<Longrightarrow> cell (map (\<lambda>j. map (\<lambda>i. - i) j) b) x y = - cell b x y"
  by (simp add: shape_def inside_def cell_def)

lemma shape_set_cell: "shape H W b \<Longrightarrow> inside H W (i, j) \<Longrightarrow> shape H W (set_cell b i j v)"
  by (auto simp: shape_def set_cell_def inside_def dest!: set_update_subset_insert [THEN subsetD])

lemma cell_set_cell:
  "shape H W b \<Longrightarrow> inside H W (i, j) \<Longrightarrow> inside H W (x, y) \<Longrightarrow>
   cell (set_cell b i j v) x y = (if (x, y) = (i, j) then v else cell b x y)"
  by (auto simp: shape_def inside_def cell_def set_cell_def nth_list_update)

lemma shape_set_cells: "shape H W b \<Longrightarrow> shape H W (set_cells b s v)"
  by (auto simp: shape_def set_cells_def in_set_enumerate_eq)

lemma cell_set_cells:
  "shape H W b \<Longrightarrow> inside H W (x, y) \<Longrightarrow>
   cell (set_cells b s v) x y = (if (x, y) \<in> s then v else cell b x y)"
  by (simp add: shape_def inside_def cell_def set_cells_def nth_enumerate_eq)

lemma flip_flip: "map (\<lambda>j. map (\<lambda>i. - i) j) (map (\<lambda>j. map (\<lambda>i. - i) j) b) = (b :: grid)"
  by (simp add: comp_def)

lemma cells_ok_flip: "cells_ok b \<Longrightarrow> cells_ok (map (\<lambda>j. map (\<lambda>i. - i) j) b)"
  by (auto simp: cells_ok_def)

lemma cells_ok_set_cell:
  assumes "cells_ok b" "shape H W b" "inside H W (i, j)" "v = 1 \<or> v = 0 \<or> v = - 1"
  shows "cells_ok (set_cell b i j v)"
proof -
  have row: "b ! nat i \<in> set b"
    using assms(2,3) by (simp add: shape_def inside_def)
  have "\<forall>c \<in> set ((b ! nat i)[nat j := v]). c = 1 \<or> c = 0 \<or> c = - 1"
    using assms(1,4) row set_update_subset_insert [of "b ! nat i" "nat j" v]
    by (auto simp: cells_ok_def)
  then show ?thesis
    using assms(1) set_update_subset_insert [of b "nat i" "(b ! nat i)[nat j := v]"]
    by (auto simp: cells_ok_def set_cell_def)
qed

lemma cells_ok_set_cells:
  "cells_ok b \<Longrightarrow> v = 1 \<or> v = 0 \<or> v = - 1 \<Longrightarrow> cells_ok (set_cells b s v)"
  by (auto simp: cells_ok_def set_cells_def in_set_enumerate_eq split: if_splits) (metis nth_mem)+

lemma grid_eqI:
  assumes "shape H W a" "shape H W b"
    and "\<And>x y. inside H W (x, y) \<Longrightarrow> cell a x y = cell b x y"
  shows "a = b"
proof (rule nth_equalityI)
  show "length a = length b"
    using assms(1,2) by (simp add: shape_def)
next
  fix n assume n: "n < length a"
  then have nH: "int n < H" using assms(1) by (auto simp: shape_def)
  have la: "length (a ! n) = nat W" using assms(1) n by (simp add: shape_def)
  have lb: "length (b ! n) = nat W" using assms(1,2) n by (simp add: shape_def)
  show "a ! n = b ! n"
  proof (rule nth_equalityI)
    show "length (a ! n) = length (b ! n)" by (simp add: la lb)
  next
    fix m assume "m < length (a ! n)"
    then have "inside H W (int n, int m)"
      using nH la by (auto simp: inside_def)
    from assms(3) [OF this] show "a ! n ! m = b ! n ! m"
      by (simp add: cell_def)
  qed
qed

text \<open>
  The loop \<^verbatim>\<open>for x,y in s: self.board[x][y] = v\<close>, run over the squares of \<open>s\<close> in
  any order \<open>xs\<close>, gives \<open>set_cells\<close>.
\<close>

lemma fold_set_cell:
  assumes "shape H W b" "\<forall>k \<in> set xs. inside H W k"
  shows "fold (\<lambda>(x, y) b. set_cell b x y v) xs b = set_cells b (set xs) v"
  using assms
proof (induction xs arbitrary: b)
  case Nil
  have "set_cells b {} v = b"
    by (rule grid_eqI [OF shape_set_cells [OF Nil(1)] Nil(1)]) (simp add: cell_set_cells [OF Nil(1)])
  then show ?case by simp
next
  case (Cons k xs)
  obtain x y where k: "k = (x, y)" by (cases k)
  have ins: "inside H W (x, y)" using Cons.prems(2) k by simp
  have sh1: "shape H W (set_cell b x y v)"
    using Cons.prems(1) ins by (rule shape_set_cell)
  have "fold (\<lambda>(x, y) b. set_cell b x y v) (k # xs) b = set_cells (set_cell b x y v) (set xs) v"
    using Cons.IH [OF sh1] Cons.prems(2) by (simp add: k)
  also have "\<dots> = set_cells b (set (k # xs)) v"
  proof (rule grid_eqI [OF shape_set_cells [OF sh1] shape_set_cells [OF Cons.prems(1)]])
    fix x' y' assume i': "inside H W (x', y')"
    show "cell (set_cells (set_cell b x y v) (set xs) v) x' y' = cell (set_cells b (set (k # xs)) v) x' y'"
      by (auto simp: cell_set_cells [OF sh1 i'] cell_set_cells [OF Cons.prems(1) i']
          cell_set_cell [OF Cons.prems(1) ins i'] cell_set_cell [OF Cons.prems(1) ins ins] k)
  qed
  finally show ?case .
qed

subsection \<open>Counting pieces\<close>

lemma sum_list_signs:
  "\<forall>c \<in> set xs. c = 1 \<or> c = 0 \<or> c = - 1 \<Longrightarrow>
   sum_list xs = int (length (filter (\<lambda>c. c = 1) xs)) - int (length (filter (\<lambda>c. c = - 1) xs))"
  by (induction xs) auto

lemma sum_list_concat: "sum_list (map sum_list b) = sum_list (concat (b :: int list list))"
  by (induction b) auto

lemma board_sum:
  "cells_ok b \<Longrightarrow>
   sum_list (map sum_list b) = int (count_cells (\<lambda>c. c = 1) b) - int (count_cells (\<lambda>c. c = - 1) b)"
  unfolding count_cells_def sum_list_concat
  by (rule sum_list_signs) (auto simp: cells_ok_def)

lemma count_cells_card:
  assumes "shape H W b"
  shows "count_cells P b = card {k \<in> set (squares H W). P (cell b (fst k) (snd k))}"
proof -
  let ?A = "\<lambda>i. {j. j < nat W \<and> P (b ! i ! j)}"
  let ?S = "SIGMA i:{0..<nat H}. ?A i"
  have len: "length b = nat H" and row: "\<And>i. i < nat H \<Longrightarrow> length (b ! i) = nat W"
    using assms by (simp_all add: shape_def)
  have "count_cells P b = sum_list (map (\<lambda>r. length (filter P r)) b)"
    by (simp add: count_cells_def filter_concat length_concat comp_def)
  also have "\<dots> = (\<Sum>i = 0..<nat H. length (filter P (b ! i)))"
    by (simp add: sum_list_sum_nth len)
  also have "\<dots> = (\<Sum>i = 0..<nat H. card (?A i))"
    by (rule sum.cong) (simp_all add: length_filter_conv_card row)
  also have "\<dots> = card ?S"
    by (simp add: card_SigmaI)
  also have "\<dots> = card ((\<lambda>(i, j). (int i, int j)) ` ?S)"
    by (rule card_image [symmetric]) (auto simp: inj_on_def)
  also have "(\<lambda>(i, j). (int i, int j)) ` ?S = {k \<in> set (squares H W). P (cell b (fst k) (snd k))}"
  proof (rule set_eqI)
    fix k :: coord
    obtain x y where k: "k = (x, y)" by (cases k)
    show "k \<in> (\<lambda>(i, j). (int i, int j)) ` ?S \<longleftrightarrow> k \<in> {k \<in> set (squares H W). P (cell b (fst k) (snd k))}"
    proof
      assume "k \<in> (\<lambda>(i, j). (int i, int j)) ` ?S"
      then show "k \<in> {k \<in> set (squares H W). P (cell b (fst k) (snd k))}"
        by (auto simp: set_squares inside_def cell_def)
    next
      assume "k \<in> {k \<in> set (squares H W). P (cell b (fst k) (snd k))}"
      then have "(nat x, nat y) \<in> ?S" and "0 \<le> x" "0 \<le> y"
        by (auto simp: k set_squares inside_def cell_def)
      then have "(\<lambda>(i, j). (int i, int j)) (nat x, nat y) \<in> (\<lambda>(i, j). (int i, int j)) ` ?S"
        by (intro imageI)
      then show "k \<in> (\<lambda>(i, j). (int i, int j)) ` ?S"
        using \<open>0 \<le> x\<close> \<open>0 \<le> y\<close> by (simp add: k)
    qed
  qed
  finally show ?thesis .
qed

section \<open>The search for captures\<close>

text \<open>
  For the eight directions of the source, \<open>walk\<close> is the loop as it is written.
\<close>

lemma walk_unfold:
  "(h, v) \<in> set directions \<Longrightarrow>
   walk b H W h v ci cj flipped =
     (if cell b ci cj = -1 then
        (if ci + h < 0 \<or> ci + h > H - 1 \<or> cj + v < 0 \<or> cj + v > W - 1
         then (ci, cj, flipped)
         else walk b H W h v (ci + h) (cj + v) (insert (ci, cj) flipped))
      else (ci, cj, flipped))"
  by (subst walk.simps) (auto simp: directions_def)

text \<open>The cursor never leaves the board, and only squares of the board are collected.\<close>

lemma walk_inside:
  "walk b H W h v ci cj flipped = (ci', cj', flipped') \<Longrightarrow>
   inside H W (ci, cj) \<Longrightarrow> \<forall>k \<in> flipped. inside H W k \<Longrightarrow>
   inside H W (ci', cj') \<and> (\<forall>k \<in> flipped'. inside H W k)"
proof (induction b H W h v ci cj flipped rule: walk.induct)
  case (1 b H W h v ci cj flipped)
  show ?case
  proof (cases "cell b ci cj = -1 \<and> (h, v) \<noteq> (0, 0) \<and>
      \<not> (ci + h < 0 \<or> ci + h > H - 1 \<or> cj + v < 0 \<or> cj + v > W - 1)")
    case True
    then have step: "walk b H W h v (ci + h) (cj + v) (insert (ci, cj) flipped) = (ci', cj', flipped')"
      using "1.prems"(1) by (subst (asm) walk.simps) simp
    have "inside H W (ci + h, cj + v)"
      using True by (simp add: inside_def)
    moreover have "\<forall>k \<in> insert (ci, cj) flipped. inside H W k"
      using "1.prems"(2,3) by simp
    ultimately show ?thesis
      using "1.IH" True step by blast
  next
    case False
    then have "(ci', cj', flipped') = (ci, cj, flipped)"
      using "1.prems"(1) by (subst (asm) walk.simps) (auto split: if_splits)
    then show ?thesis
      using "1.prems"(2,3) by simp
  qed
qed

lemma captures_dir_inside: "k \<in> captures_dir b H W i j d \<Longrightarrow> inside H W k"
proof -
  obtain h v where d: "d = (h, v)" by (cases d)
  assume k: "k \<in> captures_dir b H W i j d"
  then have ins: "inside H W (i + h, j + v)"
    by (auto simp: captures_dir_def d Let_def inside_def split: if_splits)
  obtain ci cj fl where w: "walk b H W h v (i + h) (j + v) {} = (ci, cj, fl)"
    by (cases "walk b H W h v (i + h) (j + v) {}")
  from k have "k \<in> fl"
    by (auto simp: captures_dir_def d Let_def w split: if_splits)
  with walk_inside [OF w ins] show ?thesis by simp
qed

lemma fold_union_member:
  "k \<in> fold (\<lambda>d acc. acc \<union> f d) ds A \<longleftrightarrow> k \<in> A \<or> (\<exists>d \<in> set ds. k \<in> f d)"
  by (induction ds arbitrary: A) auto

lemma captures_inside: "k' \<in> captures b H W k \<Longrightarrow> inside H W k'"
  by (cases k) (auto simp: captures_def fold_union_member split: if_splits dest: captures_dir_inside)

subsection \<open>What \<^verbatim>\<open>update_move_dict\<close> stores\<close>

lemma update_move_dict_fields [simp]:
  "height (update_move_dict g) = height g"
  "width (update_move_dict g) = width g"
  "board (update_move_dict g) = board g"
  "curr_player (update_move_dict g) = curr_player g"
  by (simp_all add: update_move_dict_def Let_def)

lemma move_dict_update:
  "move_dict (update_move_dict g) k =
     (if inside (height g) (width g) k then Some (captures (board g) (height g) (width g) k) else None)"
  by (simp add: update_move_dict_def Let_def map_of_tabulate set_squares)

lemma possible_moves_update:
  "possible_moves (update_move_dict g) =
     filter (\<lambda>k. captures (board g) (height g) (width g) k \<noteq> {}) (squares (height g) (width g))"
  by (auto simp: update_move_dict_def Let_def map_of_tabulate intro!: filter_cong)

lemma possible_moves_update_legal: "possible_moves (update_move_dict g) = legal g"
  by (simp add: possible_moves_update legal_def)

lemma legal_cong:
  "height g' = height g \<Longrightarrow> width g' = width g \<Longrightarrow> board g' = board g \<Longrightarrow> legal g' = legal g"
  by (simp add: legal_def)

lemma legal_update [simp]:
  "legal (g\<lparr>curr_player := p\<rparr>) = legal g"
  "legal (g\<lparr>move_dict := m\<rparr>) = legal g"
  "legal (g\<lparr>possible_moves := l\<rparr>) = legal g"
  by (simp_all add: legal_def)

lemma legal_board:
  "legal (g\<lparr>board := b\<rparr>) = filter (\<lambda>k. captures b (height g) (width g) k \<noteq> {}) (squares (height g) (width g))"
  by (simp add: legal_def)

lemma update_move_dict_idem:
  "update_move_dict ((update_move_dict h)\<lparr>curr_player := c\<rparr>) = (update_move_dict h)\<lparr>curr_player := c\<rparr>"
  by (simp add: update_move_dict_def Let_def)

lemma flip_board_fields [simp]:
  "height (flip_board g) = height g"
  "width (flip_board g) = width g"
  "curr_player (flip_board g) = curr_player g"
  "move_dict (flip_board g) = move_dict g"
  "possible_moves (flip_board g) = possible_moves g"
  "board (flip_board g) = map (\<lambda>j. map (\<lambda>i. - i) j) (board g)"
  by (simp_all add: flip_board_def)

section \<open>The constructor\<close>

lemma setitem2_inside:
  "shape H W b \<Longrightarrow> inside H W (i, j) \<Longrightarrow> setitem2 b i j v = Inr (set_cell b i j v)"
  by (simp add: setitem2_def py_index_def shape_def inside_def set_cell_def)

lemma py_index_0: "py_index 0 i = Inl IndexError"
  by (simp add: py_index_def)

lemma shape_replicate: "shape h w (replicate (nat h) (replicate (nat w) 0))"
  by (simp add: shape_def)

lemma centre_inside:
  assumes "h mod 2 = 0" "w mod 2 = 0" "0 < h" "0 < w"
  shows "inside h w (h div 2 - 1, w div 2 - 1)" "inside h w (h div 2, w div 2 - 1)"
    "inside h w (h div 2 - 1, w div 2)" "inside h w (h div 2, w div 2)"
  using assms by (auto simp: inside_def)

lemma init_even_positive:
  assumes "h mod 2 = 0" "w mod 2 = 0" "0 < h" "0 < w"
  shows "init h w = Inr (update_move_dict
           \<lparr>height = h, width = w, board = start_board h w, curr_player = 1,
            move_dict = map_of (map (\<lambda>k. (k, {})) (squares h w)), possible_moves = []\<rparr>)"
proof -
  note c = centre_inside [OF assms]
  let ?b0 = "replicate (nat h) (replicate (nat w) (0::int))"
  let ?b1 = "set_cell ?b0 (h div 2 - 1) (w div 2 - 1) 1"
  let ?b2 = "set_cell ?b1 (h div 2) (w div 2 - 1) (- 1)"
  let ?b3 = "set_cell ?b2 (h div 2 - 1) (w div 2) (- 1)"
  have s0: "shape h w ?b0" by (rule shape_replicate)
  have s1: "shape h w ?b1" using s0 c(1) by (rule shape_set_cell)
  have s2: "shape h w ?b2" using s1 c(2) by (rule shape_set_cell)
  have s3: "shape h w ?b3" using s2 c(3) by (rule shape_set_cell)
  show ?thesis
    using assms(1,2)
    by (simp add: init_def start_board_def setitem2_inside [OF s0 c(1)] setitem2_inside [OF s1 c(2)]
        setitem2_inside [OF s2 c(3)] setitem2_inside [OF s3 c(4)])
qed

lemma init_odd: "h mod 2 \<noteq> 0 \<or> w mod 2 \<noteq> 0 \<Longrightarrow> init h w = Inl ValueError"
  by (simp add: init_def)

lemma init_even_nonpositive:
  assumes "h mod 2 = 0" "w mod 2 = 0" "h \<le> 0 \<or> w \<le> 0"
  shows "init h w = Inl IndexError"
proof (cases "h \<le> 0")
  case True
  then show ?thesis
    using assms(1,2) by (simp add: init_def setitem2_def py_index_0)
next
  case False
  then have w: "w \<le> 0" and h: "0 < h" using assms(3) by auto
  have "py_index (nat h) (h div 2 - 1) = Inr (nat (h div 2 - 1))"
    using h assms(1) by (auto simp: py_index_def)
  moreover have "nat (h div 2 - 1) < nat h"
    using h assms(1) by auto
  ultimately show ?thesis
    using assms(1,2) w by (simp add: init_def setitem2_def py_index_0)
qed

lemma shape_start_board: "h mod 2 = 0 \<Longrightarrow> w mod 2 = 0 \<Longrightarrow> 0 < h \<Longrightarrow> 0 < w \<Longrightarrow> shape h w (start_board h w)"
  unfolding start_board_def
  by (intro shape_set_cell shape_replicate centre_inside)

lemma cell_start_board:
  assumes "h mod 2 = 0" "w mod 2 = 0" "0 < h" "0 < w" "inside h w (x, y)"
  shows "cell (start_board h w) x y =
     (if (x, y) = (h div 2 - 1, w div 2 - 1) \<or> (x, y) = (h div 2, w div 2) then 1
      else if (x, y) = (h div 2, w div 2 - 1) \<or> (x, y) = (h div 2 - 1, w div 2) then - 1
      else 0)"
proof -
  note c = centre_inside [OF assms(1-4)]
  let ?b0 = "replicate (nat h) (replicate (nat w) (0::int))"
  let ?b1 = "set_cell ?b0 (h div 2 - 1) (w div 2 - 1) 1"
  let ?b2 = "set_cell ?b1 (h div 2) (w div 2 - 1) (- 1)"
  let ?b3 = "set_cell ?b2 (h div 2 - 1) (w div 2) (- 1)"
  have s0: "shape h w ?b0" by (rule shape_replicate)
  have s1: "shape h w ?b1" using s0 c(1) by (rule shape_set_cell)
  have s2: "shape h w ?b2" using s1 c(2) by (rule shape_set_cell)
  have s3: "shape h w ?b3" using s2 c(3) by (rule shape_set_cell)
  have z: "cell ?b0 x y = 0"
    using assms(5) by (simp add: cell_def inside_def)
  show ?thesis
    unfolding start_board_def
    by (simp only: cell_set_cell [OF s3 c(4) assms(5)] cell_set_cell [OF s2 c(3) assms(5)]
        cell_set_cell [OF s1 c(2) assms(5)] cell_set_cell [OF s0 c(1) assms(5)] z) auto
qed

lemma cells_ok_start_board:
  assumes "h mod 2 = 0" "w mod 2 = 0" "0 < h" "0 < w"
  shows "cells_ok (start_board h w)"
proof -
  note c = centre_inside [OF assms]
  let ?b0 = "replicate (nat h) (replicate (nat w) (0::int))"
  let ?b1 = "set_cell ?b0 (h div 2 - 1) (w div 2 - 1) 1"
  let ?b2 = "set_cell ?b1 (h div 2) (w div 2 - 1) (- 1)"
  let ?b3 = "set_cell ?b2 (h div 2 - 1) (w div 2) (- 1)"
  have s0: "shape h w ?b0" by (rule shape_replicate)
  have s1: "shape h w ?b1" using s0 c(1) by (rule shape_set_cell)
  have s2: "shape h w ?b2" using s1 c(2) by (rule shape_set_cell)
  have s3: "shape h w ?b3" using s2 c(3) by (rule shape_set_cell)
  have k0: "cells_ok ?b0" by (simp add: cells_ok_def)
  have k1: "cells_ok ?b1" using k0 s0 c(1) by (rule cells_ok_set_cell) simp
  have k2: "cells_ok ?b2" using k1 s1 c(2) by (rule cells_ok_set_cell) simp
  have k3: "cells_ok ?b3" using k2 s2 c(3) by (rule cells_ok_set_cell) simp
  show ?thesis
    unfolding start_board_def using k3 s3 c(4) by (rule cells_ok_set_cell) simp
qed

lemma start_board_pieces:
  assumes "h mod 2 = 0" "w mod 2 = 0" "0 < h" "0 < w"
  shows "{k \<in> set (squares h w). cell (start_board h w) (fst k) (snd k) = 1} =
           {(h div 2 - 1, w div 2 - 1), (h div 2, w div 2)}"
    and "{k \<in> set (squares h w). cell (start_board h w) (fst k) (snd k) = - 1} =
           {(h div 2, w div 2 - 1), (h div 2 - 1, w div 2)}"
    and "{k \<in> set (squares h w). cell (start_board h w) (fst k) (snd k) \<noteq> 0} =
           {(h div 2 - 1, w div 2 - 1), (h div 2, w div 2), (h div 2, w div 2 - 1), (h div 2 - 1, w div 2)}"
  using centre_inside [OF assms]
  by (auto simp: set_squares cell_start_board [OF assms] split: if_splits)

lemma start_board_counts:
  assumes "h mod 2 = 0" "w mod 2 = 0" "0 < h" "0 < w"
  shows "count_cells (\<lambda>c. c = 1) (start_board h w) = 2"
    and "count_cells (\<lambda>c. c = - 1) (start_board h w) = 2"
    and "count_cells (\<lambda>c. c \<noteq> 0) (start_board h w) = 4"
  by (simp_all add: count_cells_card [OF shape_start_board [OF assms]] start_board_pieces [OF assms])

section \<open>The invariant of the reachable states\<close>

lemma update_move_dict_cache:
  "height g' = height g \<Longrightarrow> width g' = width g \<Longrightarrow> board g' = board g \<Longrightarrow>
   move_dict (update_move_dict g') = move_dict (update_move_dict g) \<and>
   possible_moves (update_move_dict g') = possible_moves (update_move_dict g)"
  by (simp add: update_move_dict_def Let_def)

lemma cached_update: "cached (update_move_dict g) (board g)"
  unfolding cached_def using update_move_dict_cache [of "(update_move_dict g)\<lparr>board := board g\<rparr>" g]
  by simp

lemma cached_cong:
  "height g' = height g \<Longrightarrow> width g' = width g \<Longrightarrow> move_dict g' = move_dict g \<Longrightarrow>
   possible_moves g' = possible_moves g \<Longrightarrow> cached g' b = cached g b"
  unfolding cached_def using update_move_dict_cache [of "g'\<lparr>board := b\<rparr>" "g\<lparr>board := b\<rparr>"]
  by simp

lemma cached_possible_moves:
  "cached g b \<Longrightarrow> possible_moves g = legal (g\<lparr>board := b\<rparr>)"
  by (simp add: cached_def possible_moves_update_legal)

lemma cached_lookup:
  assumes "game_inv g"
  shows "\<exists>b. move_dict g = (\<lambda>k. if inside (height g) (width g) k
                 then Some (captures b (height g) (width g) k) else None) \<and>
             possible_moves g = filter (\<lambda>k. captures b (height g) (width g) k \<noteq> {})
                 (squares (height g) (width g))"
proof -
  from assms obtain b where "cached g b"
    by (auto simp: game_inv_def)
  then show ?thesis
    by (intro exI [of _ b]) (auto simp: cached_def move_dict_update possible_moves_update)
qed

lemma init_game_inv: "init h w = Inr g \<Longrightarrow> game_inv g"
proof -
  assume i: "init h w = Inr g"
  have ev: "h mod 2 = 0" "w mod 2 = 0"
    using i by (auto simp: init_def split: if_splits)
  have pos: "0 < h" "0 < w"
    using i init_even_nonpositive [OF ev] by (auto simp: not_le [symmetric])
  let ?g0 = "\<lparr>height = h, width = w, board = start_board h w, curr_player = 1,
            move_dict = map_of (map (\<lambda>k. (k, {})) (squares h w)), possible_moves = []\<rparr>"
  have g: "g = update_move_dict ?g0"
    using i init_even_positive [OF ev pos] by simp
  have "cached g (board g)"
    unfolding g using cached_update [of ?g0] by simp
  then show ?thesis
    using pos shape_start_board [OF ev pos] cells_ok_start_board [OF ev pos]
    by (simp add: game_inv_def g)
qed

lemma move_dict_inside:
  assumes "game_inv g" "move_dict g k = Some s"
  shows "inside (height g) (width g) k \<and> (\<forall>k' \<in> s. inside (height g) (width g) k')"
proof -
  from assms(1) obtain b where c: "cached g b"
    by (auto simp: game_inv_def)
  then have "move_dict (update_move_dict (g\<lparr>board := b\<rparr>)) k = Some s"
    using assms(2) by (simp add: cached_def)
  then show ?thesis
    by (auto simp: move_dict_update split: if_splits dest: captures_inside)
qed

lemma make_move_pass:
  "make_move g None None = Inr ((flip_board g)\<lparr>curr_player := curr_player g * - 1\<rparr>)"
  by (simp add: make_move_def)

lemma make_move_raise_same: "make_move g i j = Inl (e, g') \<Longrightarrow> g' = g"
  by (auto simp: make_move_def Let_def split: option.splits if_splits)

lemma make_move_game_inv:
  assumes "game_inv g" "make_move g i j = Inr g'"
  shows "game_inv g'"
proof (cases "i = None \<and> j = None")
  case True
  then have g': "g' = (flip_board g)\<lparr>curr_player := curr_player g * - 1\<rparr>"
    using assms(2) by (simp add: make_move_def)
  have c: "cached g' b = cached g b" for b
    by (rule cached_cong) (simp_all add: g')
  show ?thesis
    using assms(1) unfolding game_inv_def c
    by (auto simp: g' shape_flip cells_ok_flip comp_def)
next
  case False
  then obtain i' j' s where ij: "i = Some i'" "j = Some j'"
    and ins: "inside (height g) (width g) (i', j')"
    and s: "move_dict g (i', j') = Some s" "s \<noteq> {}"
    and g': "g' = (update_move_dict (flip_board
              (g\<lparr>board := set_cells (set_cell (board g) i' j' 1) s 1\<rparr>)))
              \<lparr>curr_player := curr_player g * - 1\<rparr>"
    using assms(2)
    by (auto simp: make_move_def Let_def inside_def split: option.splits if_splits)
  let ?g1 = "flip_board (g\<lparr>board := set_cells (set_cell (board g) i' j' 1) s 1\<rparr>)"
  have sh: "shape (height g) (width g) (board g)" and ok: "cells_ok (board g)"
    using assms(1) by (simp_all add: game_inv_def)
  have sh1: "shape (height g) (width g) (set_cell (board g) i' j' 1)"
    using sh ins by (rule shape_set_cell)
  have ok1: "cells_ok (set_cell (board g) i' j' 1)"
    using ok sh ins by (rule cells_ok_set_cell) simp
  have sh': "shape (height g') (width g') (board g')"
    by (simp add: g' shape_flip shape_set_cells sh1)
  have ok': "cells_ok (board g')"
    by (simp add: g' cells_ok_flip cells_ok_set_cells ok1)
  have "cached (update_move_dict ?g1) (board ?g1)"
    by (rule cached_update)
  moreover have "cached g' b = cached (update_move_dict ?g1) b" for b
    by (rule cached_cong) (simp_all add: g')
  ultimately have "cached g' (board g')"
    by (simp add: g')
  then show ?thesis
    using assms(1) sh' ok' by (auto simp: game_inv_def g')
qed

lemma check_winner_state:
  "snd (check_winner g) =
     (if possible_moves g = [] then update_move_dict (flip_board (update_move_dict (flip_board g)))
      else g)"
  by (simp add: check_winner_def Let_def)

lemma check_winner_result:
  "fst (check_winner g) =
     (if possible_moves g = [] \<and> legal (flip_board g) = [] then
        (let s = sum_list (map sum_list (board g)) in
         if s > 0 then (True, curr_player g)
         else if s < 0 then (True, - curr_player g) else (True, 0))
      else (False, 0))"
  by (simp add: check_winner_def Let_def possible_moves_update_legal comp_def)

lemma check_winner_game_inv:
  assumes "game_inv g"
  shows "game_inv (snd (check_winner g))"
proof (cases "possible_moves g = []")
  case False
  then show ?thesis using assms by (simp add: check_winner_state)
next
  case True
  let ?g' = "update_move_dict (flip_board (update_move_dict (flip_board g)))"
  have b: "board ?g' = board g"
    by (simp add: comp_def)
  have "cached ?g' (board (flip_board (update_move_dict (flip_board g))))"
    by (rule cached_update)
  then have "cached ?g' (board ?g')"
    by (simp add: comp_def)
  then show ?thesis
    using assms True unfolding check_winner_state game_inv_def b by simp
qed

lemma fancy_print_same: "fancy_print g = g"
  by (simp add: fancy_print_def flip_board_def comp_def)

lemma update_move_dict_game_inv:
  assumes "game_inv g"
  shows "game_inv (update_move_dict g)"
  using assms cached_update [of g] by (simp add: game_inv_def)

lemma reachable_game_inv: "reachable g \<Longrightarrow> game_inv g"
proof (induction rule: reachable.induct)
  case (reachable_init h w g)
  then show ?case by (rule init_game_inv)
next
  case (reachable_move g i j g')
  then show ?case by (blast intro: make_move_game_inv)
next
  case (reachable_raise g i j e g')
  then show ?case by (auto dest: make_move_raise_same)
next
  case (reachable_check g)
  then show ?case by (blast intro: check_winner_game_inv)
next
  case (reachable_print g)
  then show ?case by (simp add: fancy_print_same)
next
  case (reachable_update g)
  then show ?case by (blast intro: update_move_dict_game_inv)
qed

text \<open>
  A coordinate move leaves the cache computed for the new board. On a state whose
  cache was computed for its board, \<^verbatim>\<open>check_winner\<close> decides by the moves the two
  players have on the board, and changes nothing.
\<close>

lemma make_move_fresh:
  assumes "make_move g (Some i) (Some j) = Inr g'"
  shows "update_move_dict g' = g'"
proof -
  from assms obtain h c where "g' = (update_move_dict h)\<lparr>curr_player := c\<rparr>"
    by (auto simp: make_move_def Let_def split: option.splits if_splits)
  then show ?thesis
    by (simp add: update_move_dict_idem)
qed

lemma check_winner_fresh:
  assumes "update_move_dict g = g"
  shows "fst (check_winner g) =
     (if legal g = [] \<and> legal (flip_board g) = [] then
        (let s = sum_list (map sum_list (board g)) in
         if s > 0 then (True, curr_player g)
         else if s < 0 then (True, - curr_player g) else (True, 0))
      else (False, 0))"
proof -
  have "possible_moves g = legal g"
    using possible_moves_update_legal [of g] assms by simp
  then show ?thesis
    by (simp add: check_winner_result)
qed

lemma check_winner_frame:
  assumes "update_move_dict g = g"
  shows "snd (check_winner g) = g"
proof -
  have "update_move_dict (flip_board (update_move_dict (flip_board g))) = update_move_dict g"
    by (simp add: flip_board_def update_move_dict_def Let_def comp_def)
  then show ?thesis
    using assms by (simp add: check_winner_state)
qed

section \<open>Example games\<close>

lemma position_fields [simp]:
  "height (position H W b p) = H" "width (position H W b p) = W"
  "board (position H W b p) = b" "curr_player (position H W b p) = p"
  by (simp_all add: position_def)

lemma possible_moves_position:
  "possible_moves (position H W b p) = filter (\<lambda>k. captures b H W k \<noteq> {}) (squares H W)"
  by (simp add: position_def possible_moves_update)

lemma move_dict_position:
  "move_dict (position H W b p) k = (if inside H W k then Some (captures b H W k) else None)"
  by (simp add: position_def move_dict_update)

lemma legal_position: "legal (position H W b p) = filter (\<lambda>k. captures b H W k \<noteq> {}) (squares H W)"
  by (simp add: legal_def)

lemma update_move_dict_position:
  "update_move_dict g = position (height g) (width g) (board g) (curr_player g)"
  by (simp add: position_def update_move_dict_def Let_def)

lemma position_curr_player: "(position H W b p)\<lparr>curr_player := q\<rparr> = position H W b q"
  by (simp add: position_def update_move_dict_def Let_def)

lemma init_position:
  "h mod 2 = 0 \<Longrightarrow> w mod 2 = 0 \<Longrightarrow> 0 < h \<Longrightarrow> 0 < w \<Longrightarrow>
   init h w = Inr (position h w (start_board h w) 1)"
  by (simp add: init_even_positive update_move_dict_position)

lemma make_move_position:
  assumes "inside H W (i, j)" "captures b H W (i, j) = s" "s \<noteq> {}"
  shows "make_move (position H W b p) (Some i) (Some j) =
           Inr (position H W (map (\<lambda>j. map (\<lambda>i. - i) j) (set_cells (set_cell b i j 1) s 1)) (p * - 1))"
  using assms
  by (simp add: make_move_def move_dict_position Let_def inside_def update_move_dict_position
      position_curr_player)

lemma pass_position:
  "make_move (position H W b p) None None =
     Inr ((position H W b p)\<lparr>board := map (\<lambda>j. map (\<lambda>i. - i) j) b, curr_player := p * - 1\<rparr>)"
  by (simp add: make_move_def flip_board_def)

subsection \<open>The 4 x 4 board\<close>

lemma start_4_4: "start_board 4 4 = [[0, 0, 0, 0], [0, 1, - 1, 0], [0, - 1, 1, 0], [0, 0, 0, 0]]"
  by code_simp

lemma init_4_4: "init 4 4 = Inr (position 4 4 [[0, 0, 0, 0], [0, 1, - 1, 0], [0, - 1, 1, 0], [0, 0, 0, 0]] 1)"
  using init_position [of 4 4] by (simp add: start_4_4)

lemma reachable_4_4:
  "reachable (position 4 4 [[0, 0, 0, 0], [0, 1, - 1, 0], [0, - 1, 1, 0], [0, 0, 0, 0]] 1)"
  using init_4_4 by (rule reachable_init)

lemma legal_p0:
  "filter (\<lambda>k. captures [[0, 0, 0, 0], [0, 1, - 1, 0], [0, - 1, 1, 0], [0, 0, 0, 0]] 4 4 k \<noteq> {}) (squares 4 4)
     = [(0, 2), (1, 3), (2, 0), (3, 1)]"
  by code_simp

lemma legal_p0_flipped:
  "filter (\<lambda>k. captures [[0, 0, 0, 0], [0, - 1, 1, 0], [0, 1, - 1, 0], [0, 0, 0, 0]] 4 4 k \<noteq> {}) (squares 4 4)
     = [(0, 1), (1, 0), (2, 3), (3, 2)]"
  by code_simp

lemma captures_p0_0_2:
  "captures [[0, 0, 0, 0], [0, 1, - 1, 0], [0, - 1, 1, 0], [0, 0, 0, 0]] 4 4 (0, 2) = {(1, 2)}"
  by code_simp

lemma captures_p0_flipped_0_2:
  "captures [[0, 0, 0, 0], [0, - 1, 1, 0], [0, 1, - 1, 0], [0, 0, 0, 0]] 4 4 (0, 2) = {}"
  by code_simp

lemma pass_4_4:
  "make_move (position 4 4 [[0, 0, 0, 0], [0, 1, - 1, 0], [0, - 1, 1, 0], [0, 0, 0, 0]] 1) None None =
     Inr ((position 4 4 [[0, 0, 0, 0], [0, 1, - 1, 0], [0, - 1, 1, 0], [0, 0, 0, 0]] 1)
            \<lparr>board := [[0, 0, 0, 0], [0, - 1, 1, 0], [0, 1, - 1, 0], [0, 0, 0, 0]], curr_player := - 1\<rparr>)"
  by (simp add: pass_position)

lemma move_p0:
  "make_move (position 4 4 [[0, 0, 0, 0], [0, 1, - 1, 0], [0, - 1, 1, 0], [0, 0, 0, 0]] 1) (Some 0) (Some 2) =
     Inr (position 4 4 [[0, 0, - 1, 0], [0, - 1, - 1, 0], [0, 1, - 1, 0], [0, 0, 0, 0]] (- 1))"
proof -
  have c: "captures [[0, 0, 0, 0], [0, 1, - 1, 0], [0, - 1, 1, 0], [0, 0, 0, 0]] 4 4 (0, 2) = {(1, 2)}"
    by code_simp
  have b: "map (\<lambda>j. map (\<lambda>i. - i) j)
        (set_cells (set_cell [[0, 0, 0, 0], [0, 1, - 1, 0], [0, - 1, 1, 0], [0, 0, 0, 0]] 0 2 1) {(1, 2)} 1)
      = [[0, 0, - 1, 0], [0, - 1, - 1, 0], [0, 1, - 1, 0], [0, 0, 0, 0]]"
    by code_simp
  show ?thesis
    using make_move_position [OF _ c, of 1] by (simp add: inside_def b)
qed

lemma move_p1:
  "make_move (position 4 4 [[0, 0, - 1, 0], [0, - 1, - 1, 0], [0, 1, - 1, 0], [0, 0, 0, 0]] (- 1)) (Some 0) (Some 1) =
     Inr (position 4 4 [[0, - 1, 1, 0], [0, - 1, 1, 0], [0, - 1, 1, 0], [0, 0, 0, 0]] 1)"
proof -
  have c: "captures [[0, 0, - 1, 0], [0, - 1, - 1, 0], [0, 1, - 1, 0], [0, 0, 0, 0]] 4 4 (0, 1) = {(1, 1)}"
    by code_simp
  have b: "map (\<lambda>j. map (\<lambda>i. - i) j)
        (set_cells (set_cell [[0, 0, - 1, 0], [0, - 1, - 1, 0], [0, 1, - 1, 0], [0, 0, 0, 0]] 0 1 1) {(1, 1)} 1)
      = [[0, - 1, 1, 0], [0, - 1, 1, 0], [0, - 1, 1, 0], [0, 0, 0, 0]]"
    by code_simp
  show ?thesis
    using make_move_position [OF _ c, of "- 1"] by (simp add: inside_def b)
qed

lemma move_p2:
  "make_move (position 4 4 [[0, - 1, 1, 0], [0, - 1, 1, 0], [0, - 1, 1, 0], [0, 0, 0, 0]] 1) (Some 2) (Some 0) =
     Inr (position 4 4 [[0, 1, - 1, 0], [0, - 1, - 1, 0], [- 1, - 1, - 1, 0], [0, 0, 0, 0]] (- 1))"
proof -
  have c: "captures [[0, - 1, 1, 0], [0, - 1, 1, 0], [0, - 1, 1, 0], [0, 0, 0, 0]] 4 4 (2, 0) = {(2, 1), (1, 1)}"
    by code_simp
  have b: "map (\<lambda>j. map (\<lambda>i. - i) j)
        (set_cells (set_cell [[0, - 1, 1, 0], [0, - 1, 1, 0], [0, - 1, 1, 0], [0, 0, 0, 0]] 2 0 1) {(2, 1), (1, 1)} 1)
      = [[0, 1, - 1, 0], [0, - 1, - 1, 0], [- 1, - 1, - 1, 0], [0, 0, 0, 0]]"
    by code_simp
  show ?thesis
    using make_move_position [OF _ c, of 1] by (simp add: inside_def b)
qed

lemma move_p3:
  "make_move (position 4 4 [[0, 1, - 1, 0], [0, - 1, - 1, 0], [- 1, - 1, - 1, 0], [0, 0, 0, 0]] (- 1)) (Some 0) (Some 3) =
     Inr (position 4 4 [[0, - 1, - 1, - 1], [0, 1, 1, 0], [1, 1, 1, 0], [0, 0, 0, 0]] 1)"
proof -
  have c: "captures [[0, 1, - 1, 0], [0, - 1, - 1, 0], [- 1, - 1, - 1, 0], [0, 0, 0, 0]] 4 4 (0, 3) = {(0, 2)}"
    by code_simp
  have b: "map (\<lambda>j. map (\<lambda>i. - i) j)
        (set_cells (set_cell [[0, 1, - 1, 0], [0, - 1, - 1, 0], [- 1, - 1, - 1, 0], [0, 0, 0, 0]] 0 3 1) {(0, 2)} 1)
      = [[0, - 1, - 1, - 1], [0, 1, 1, 0], [1, 1, 1, 0], [0, 0, 0, 0]]"
    by code_simp
  show ?thesis
    using make_move_position [OF _ c, of "- 1"] by (simp add: inside_def b)
qed

lemma legal_p4:
  "filter (\<lambda>k. captures [[0, - 1, - 1, - 1], [0, 1, 1, 0], [1, 1, 1, 0], [0, 0, 0, 0]] 4 4 k \<noteq> {}) (squares 4 4) = []"
  by code_simp

lemma legal_p5:
  "filter (\<lambda>k. captures [[0, 1, 1, 1], [0, - 1, - 1, 0], [- 1, - 1, - 1, 0], [0, 0, 0, 0]] 4 4 k \<noteq> {}) (squares 4 4)
     = [(2, 3), (3, 0), (3, 1), (3, 2)]"
  by code_simp

lemma game_4_4:
  "init 4 4 = Inr (position 4 4 [[0, 0, 0, 0], [0, 1, - 1, 0], [0, - 1, 1, 0], [0, 0, 0, 0]] 1) \<and>
   make_move (position 4 4 [[0, 0, 0, 0], [0, 1, - 1, 0], [0, - 1, 1, 0], [0, 0, 0, 0]] 1) (Some 0) (Some 2) =
     Inr (position 4 4 [[0, 0, - 1, 0], [0, - 1, - 1, 0], [0, 1, - 1, 0], [0, 0, 0, 0]] (- 1)) \<and>
   make_move (position 4 4 [[0, 0, - 1, 0], [0, - 1, - 1, 0], [0, 1, - 1, 0], [0, 0, 0, 0]] (- 1)) (Some 0) (Some 1) =
     Inr (position 4 4 [[0, - 1, 1, 0], [0, - 1, 1, 0], [0, - 1, 1, 0], [0, 0, 0, 0]] 1) \<and>
   make_move (position 4 4 [[0, - 1, 1, 0], [0, - 1, 1, 0], [0, - 1, 1, 0], [0, 0, 0, 0]] 1) (Some 2) (Some 0) =
     Inr (position 4 4 [[0, 1, - 1, 0], [0, - 1, - 1, 0], [- 1, - 1, - 1, 0], [0, 0, 0, 0]] (- 1)) \<and>
   make_move (position 4 4 [[0, 1, - 1, 0], [0, - 1, - 1, 0], [- 1, - 1, - 1, 0], [0, 0, 0, 0]] (- 1)) (Some 0) (Some 3) =
     Inr (position 4 4 [[0, - 1, - 1, - 1], [0, 1, 1, 0], [1, 1, 1, 0], [0, 0, 0, 0]] 1) \<and>
   make_move (position 4 4 [[0, - 1, - 1, - 1], [0, 1, 1, 0], [1, 1, 1, 0], [0, 0, 0, 0]] 1) None None =
     Inr ((position 4 4 [[0, - 1, - 1, - 1], [0, 1, 1, 0], [1, 1, 1, 0], [0, 0, 0, 0]] 1)
            \<lparr>board := [[0, 1, 1, 1], [0, - 1, - 1, 0], [- 1, - 1, - 1, 0], [0, 0, 0, 0]], curr_player := - 1\<rparr>)"
  by (simp add: init_4_4 move_p0 move_p1 move_p2 move_p3 pass_position)

text \<open>
  A second game on the same board, which goes on from the position after the first
  two moves above and ends, after nine moves in all, in a position where neither
  player can move.
\<close>

lemma end_game_2:
  "make_move (position 4 4 [[0, - 1, 1, 0], [0, - 1, 1, 0], [0, - 1, 1, 0], [0, 0, 0, 0]] 1) (Some 0) (Some 0) =
     Inr (position 4 4 [[- 1, - 1, - 1, 0], [0, - 1, - 1, 0], [0, 1, - 1, 0], [0, 0, 0, 0]] (- 1))"
proof -
  have c: "captures [[0, - 1, 1, 0], [0, - 1, 1, 0], [0, - 1, 1, 0], [0, 0, 0, 0]] 4 4 (0, 0) = {(0, 1), (1, 1)}"
    by code_simp
  have b: "map (\<lambda>j. map (\<lambda>i. - i) j)
        (set_cells (set_cell [[0, - 1, 1, 0], [0, - 1, 1, 0], [0, - 1, 1, 0], [0, 0, 0, 0]] 0 0 1) {(0, 1), (1, 1)} 1)
      = [[- 1, - 1, - 1, 0], [0, - 1, - 1, 0], [0, 1, - 1, 0], [0, 0, 0, 0]]"
    by code_simp
  show ?thesis
    using make_move_position [OF _ c, of 1] by (simp add: inside_def b)
qed

lemma end_game_3:
  "make_move (position 4 4 [[- 1, - 1, - 1, 0], [0, - 1, - 1, 0], [0, 1, - 1, 0], [0, 0, 0, 0]] (- 1)) (Some 2) (Some 3) =
     Inr (position 4 4 [[1, 1, 1, 0], [0, 1, 1, 0], [0, - 1, - 1, - 1], [0, 0, 0, 0]] 1)"
proof -
  have c: "captures [[- 1, - 1, - 1, 0], [0, - 1, - 1, 0], [0, 1, - 1, 0], [0, 0, 0, 0]] 4 4 (2, 3) = {(2, 2)}"
    by code_simp
  have b: "map (\<lambda>j. map (\<lambda>i. - i) j)
        (set_cells (set_cell [[- 1, - 1, - 1, 0], [0, - 1, - 1, 0], [0, 1, - 1, 0], [0, 0, 0, 0]] 2 3 1) {(2, 2)} 1)
      = [[1, 1, 1, 0], [0, 1, 1, 0], [0, - 1, - 1, - 1], [0, 0, 0, 0]]"
    by code_simp
  show ?thesis
    using make_move_position [OF _ c, of "- 1"] by (simp add: inside_def b)
qed

lemma end_game_4:
  "make_move (position 4 4 [[1, 1, 1, 0], [0, 1, 1, 0], [0, - 1, - 1, - 1], [0, 0, 0, 0]] 1) (Some 3) (Some 0) =
     Inr (position 4 4 [[- 1, - 1, - 1, 0], [0, - 1, - 1, 0], [0, - 1, 1, 1], [- 1, 0, 0, 0]] (- 1))"
proof -
  have c: "captures [[1, 1, 1, 0], [0, 1, 1, 0], [0, - 1, - 1, - 1], [0, 0, 0, 0]] 4 4 (3, 0) = {(2, 1)}"
    by code_simp
  have b: "map (\<lambda>j. map (\<lambda>i. - i) j)
        (set_cells (set_cell [[1, 1, 1, 0], [0, 1, 1, 0], [0, - 1, - 1, - 1], [0, 0, 0, 0]] 3 0 1) {(2, 1)} 1)
      = [[- 1, - 1, - 1, 0], [0, - 1, - 1, 0], [0, - 1, 1, 1], [- 1, 0, 0, 0]]"
    by code_simp
  show ?thesis
    using make_move_position [OF _ c, of 1] by (simp add: inside_def b)
qed

lemma end_game_5:
  "make_move (position 4 4 [[- 1, - 1, - 1, 0], [0, - 1, - 1, 0], [0, - 1, 1, 1], [- 1, 0, 0, 0]] (- 1)) (Some 2) (Some 0) =
     Inr (position 4 4 [[1, 1, 1, 0], [0, 1, 1, 0], [- 1, - 1, - 1, - 1], [1, 0, 0, 0]] 1)"
proof -
  have c: "captures [[- 1, - 1, - 1, 0], [0, - 1, - 1, 0], [0, - 1, 1, 1], [- 1, 0, 0, 0]] 4 4 (2, 0) = {(2, 1)}"
    by code_simp
  have b: "map (\<lambda>j. map (\<lambda>i. - i) j)
        (set_cells (set_cell [[- 1, - 1, - 1, 0], [0, - 1, - 1, 0], [0, - 1, 1, 1], [- 1, 0, 0, 0]] 2 0 1) {(2, 1)} 1)
      = [[1, 1, 1, 0], [0, 1, 1, 0], [- 1, - 1, - 1, - 1], [1, 0, 0, 0]]"
    by code_simp
  show ?thesis
    using make_move_position [OF _ c, of "- 1"] by (simp add: inside_def b)
qed

lemma end_game_6:
  "make_move (position 4 4 [[1, 1, 1, 0], [0, 1, 1, 0], [- 1, - 1, - 1, - 1], [1, 0, 0, 0]] 1) (Some 1) (Some 0) =
     Inr (position 4 4 [[- 1, - 1, - 1, 0], [- 1, - 1, - 1, 0], [- 1, 1, 1, 1], [- 1, 0, 0, 0]] (- 1))"
proof -
  have c: "captures [[1, 1, 1, 0], [0, 1, 1, 0], [- 1, - 1, - 1, - 1], [1, 0, 0, 0]] 4 4 (1, 0) = {(2, 0)}"
    by code_simp
  have b: "map (\<lambda>j. map (\<lambda>i. - i) j)
        (set_cells (set_cell [[1, 1, 1, 0], [0, 1, 1, 0], [- 1, - 1, - 1, - 1], [1, 0, 0, 0]] 1 0 1) {(2, 0)} 1)
      = [[- 1, - 1, - 1, 0], [- 1, - 1, - 1, 0], [- 1, 1, 1, 1], [- 1, 0, 0, 0]]"
    by code_simp
  show ?thesis
    using make_move_position [OF _ c, of 1] by (simp add: inside_def b)
qed

lemma end_game_7:
  "make_move (position 4 4 [[- 1, - 1, - 1, 0], [- 1, - 1, - 1, 0], [- 1, 1, 1, 1], [- 1, 0, 0, 0]] (- 1)) (Some 0) (Some 3) =
     Inr (position 4 4 [[1, 1, 1, - 1], [1, 1, - 1, 0], [1, - 1, - 1, - 1], [1, 0, 0, 0]] 1)"
proof -
  have c: "captures [[- 1, - 1, - 1, 0], [- 1, - 1, - 1, 0], [- 1, 1, 1, 1], [- 1, 0, 0, 0]] 4 4 (0, 3) = {(1, 2)}"
    by code_simp
  have b: "map (\<lambda>j. map (\<lambda>i. - i) j)
        (set_cells (set_cell [[- 1, - 1, - 1, 0], [- 1, - 1, - 1, 0], [- 1, 1, 1, 1], [- 1, 0, 0, 0]] 0 3 1) {(1, 2)} 1)
      = [[1, 1, 1, - 1], [1, 1, - 1, 0], [1, - 1, - 1, - 1], [1, 0, 0, 0]]"
    by code_simp
  show ?thesis
    using make_move_position [OF _ c, of "- 1"] by (simp add: inside_def b)
qed

lemma end_game_8:
  "make_move (position 4 4 [[1, 1, 1, - 1], [1, 1, - 1, 0], [1, - 1, - 1, - 1], [1, 0, 0, 0]] 1) (Some 3) (Some 2) =
     Inr (position 4 4 [[- 1, - 1, - 1, 1], [- 1, - 1, - 1, 0], [- 1, - 1, - 1, 1], [- 1, 0, - 1, 0]] (- 1))"
proof -
  have c: "captures [[1, 1, 1, - 1], [1, 1, - 1, 0], [1, - 1, - 1, - 1], [1, 0, 0, 0]] 4 4 (3, 2) = {(1, 2), (2, 1), (2, 2)}"
    by code_simp
  have b: "map (\<lambda>j. map (\<lambda>i. - i) j)
        (set_cells (set_cell [[1, 1, 1, - 1], [1, 1, - 1, 0], [1, - 1, - 1, - 1], [1, 0, 0, 0]] 3 2 1) {(1, 2), (2, 1), (2, 2)} 1)
      = [[- 1, - 1, - 1, 1], [- 1, - 1, - 1, 0], [- 1, - 1, - 1, 1], [- 1, 0, - 1, 0]]"
    by code_simp
  show ?thesis
    using make_move_position [OF _ c, of 1] by (simp add: inside_def b)
qed

lemma legal_end_4_4:
  "filter (\<lambda>k. captures [[- 1, - 1, - 1, 1], [- 1, - 1, - 1, 0], [- 1, - 1, - 1, 1], [- 1, 0, - 1, 0]] 4 4 k \<noteq> {}) (squares 4 4) = []"
  "filter (\<lambda>k. captures [[1, 1, 1, - 1], [1, 1, 1, 0], [1, 1, 1, - 1], [1, 0, 1, 0]] 4 4 k \<noteq> {}) (squares 4 4) = []"
  by code_simp+

lemma reachable_end_4_4:
  "reachable (position 4 4 [[- 1, - 1, - 1, 1], [- 1, - 1, - 1, 0], [- 1, - 1, - 1, 1], [- 1, 0, - 1, 0]] (- 1))"
proof -
  note step = reachable_move
  show ?thesis
    by (rule step [OF step [OF step [OF step [OF step [OF step [OF step [OF step [OF step
        [OF reachable_4_4 move_p0] move_p1] end_game_2] end_game_3] end_game_4] end_game_5]
        end_game_6] end_game_7] end_game_8])
qed

subsection \<open>The 2 x 2 board\<close>

lemma start_2_2: "start_board 2 2 = [[1, - 1], [- 1, 1]]"
  by code_simp

lemma init_2_2: "init 2 2 = Inr (position 2 2 [[1, - 1], [- 1, 1]] 1)"
  using init_position [of 2 2] by (simp add: start_2_2)

lemma legal_2_2:
  "filter (\<lambda>k. captures [[1, - 1], [- 1, 1]] 2 2 k \<noteq> {}) (squares 2 2) = []"
  "filter (\<lambda>k. captures [[- 1, 1], [1, - 1]] 2 2 k \<noteq> {}) (squares 2 2) = []"
  by code_simp+

section \<open>The claims\<close>

subsection \<open>C1: the cache after a move or a pass\<close>

text \<open>
  \<^bold>\<open>C1.\<close> The claim: on every reachable state, after a legal coordinate move or a
  pass, \<^verbatim>\<open>move_dict\<close> and \<^verbatim>\<open>possible_moves\<close> are the ones computed from the resulting
  board for the player now to move. A coordinate move does this (lemma
  \<open>make_move_fresh\<close>). The pass branch of \<^verbatim>\<open>make_move\<close> flips the board, changes the
  player and returns without calling \<^verbatim>\<open>update_move_dict\<close>: after a pass on the new
  4 x 4 board the object still lists the moves of the player who passed,
  \<open>(0,2), (1,3), (2,0), (3,1)\<close>, and \<^verbatim>\<open>update_move_dict\<close> would list
  \<open>(0,1), (1,0), (2,3), (3,2)\<close>.
\<close>

theorem pass_keeps_old_move_dict:
  "\<exists>g g'. init 4 4 = Inr g \<and> make_move g None None = Inr g' \<and>
     board g' = [[0, 0, 0, 0], [0, - 1, 1, 0], [0, 1, - 1, 0], [0, 0, 0, 0]] \<and>
     curr_player g' = - 1 \<and>
     possible_moves g' = [(0, 2), (1, 3), (2, 0), (3, 1)] \<and>
     possible_moves (update_move_dict g') = [(0, 1), (1, 0), (2, 3), (3, 2)] \<and>
     move_dict g' (0, 2) = Some {(1, 2)} \<and>
     move_dict (update_move_dict g') (0, 2) = Some {} \<and>
     update_move_dict g' \<noteq> g'"
  (is "\<exists>g g'. ?P g g'")
proof -
  let ?g = "position 4 4 [[0, 0, 0, 0], [0, 1, - 1, 0], [0, - 1, 1, 0], [0, 0, 0, 0]] 1"
  let ?g' = "?g\<lparr>board := [[0, 0, 0, 0], [0, - 1, 1, 0], [0, 1, - 1, 0], [0, 0, 0, 0]], curr_player := - 1\<rparr>"
  have pm: "possible_moves ?g' = [(0, 2), (1, 3), (2, 0), (3, 1)]"
    by (simp add: possible_moves_position legal_p0)
  have pm': "possible_moves (update_move_dict ?g') = [(0, 1), (1, 0), (2, 3), (3, 2)]"
    by (simp add: possible_moves_update legal_p0_flipped)
  have md: "move_dict ?g' (0, 2) = Some {(1, 2)}"
    by (simp add: move_dict_position inside_def captures_p0_0_2)
  have md': "move_dict (update_move_dict ?g') (0, 2) = Some {}"
    by (simp add: move_dict_update inside_def captures_p0_flipped_0_2)
  have ne: "update_move_dict ?g' \<noteq> ?g'"
    using md md' by (metis option.inject insert_not_empty)
  have "?P ?g ?g'"
    using init_4_4 pass_4_4 pm pm' md md' ne by simp
  then show ?thesis
    by blast
qed

theorem pass_keeps_old_move_dict_witness:
  "\<exists>g g'. init 4 4 = Inr g \<and> make_move g None None = Inr g' \<and>
     possible_moves g' \<noteq> possible_moves (update_move_dict g')"
proof -
  from pass_keeps_old_move_dict obtain g g' where
    "init 4 4 = Inr g" "make_move g None None = Inr g'"
    "possible_moves g' = [(0, 2), (1, 3), (2, 0), (3, 1)]"
    "possible_moves (update_move_dict g') = [(0, 1), (1, 0), (2, 3), (3, 2)]"
    by blast
  then show ?thesis
    by auto
qed

subsection \<open>C2: the first moves on the 4 x 4 board\<close>

text \<open>
  \<^bold>\<open>C2.\<close> The claim: on the new 4 x 4 board, with \<open>(1,1)\<close> and \<open>(2,2)\<close> held by the
  player to move and \<open>(2,1)\<close> and \<open>(1,2)\<close> by the opponent, the legal moves of the
  first player are exactly \<open>(0,1), (1,0), (2,3), (3,2)\<close>. These four squares
  are next to the first player's own pieces and capture nothing
  (\<open>initial_moves_4_4_not_claimed\<close>); they are the moves of the second player.
  As amended: the legal moves of the first player are exactly
  \<open>(0,2), (1,3), (2,0), (3,1)\<close>.
\<close>

theorem initial_moves_4_4:
  "\<exists>g. init 4 4 = Inr g \<and>
     cell (board g) 1 1 = 1 \<and> cell (board g) 2 1 = - 1 \<and>
     cell (board g) 1 2 = - 1 \<and> cell (board g) 2 2 = 1 \<and>
     possible_moves g = [(0, 2), (1, 3), (2, 0), (3, 1)] \<and>
     set (possible_moves g) = {(0, 2), (1, 3), (2, 0), (3, 1)}"
  by (simp add: init_4_4 possible_moves_position legal_p0 cell_def)

theorem initial_moves_4_4_witness:
  "\<exists>g. init 4 4 = Inr g \<and> (0, 2) \<in> set (possible_moves g) \<and> (0, 1) \<notin> set (possible_moves g)"
  using initial_moves_4_4 by auto

theorem initial_moves_4_4_not_claimed:
  "\<exists>g. init 4 4 = Inr g \<and> set (possible_moves g) \<noteq> {(0, 1), (1, 0), (2, 3), (3, 2)}"
proof -
  have "{(0, 2), (1, 3), (2, 0), (3, 1)} \<noteq> {(0 :: int, 1 :: int), (1, 0), (2, 3), (3, 2)}"
  proof
    assume "{(0, 2), (1, 3), (2, 0), (3, 1)} = {(0 :: int, 1 :: int), (1, 0), (2, 3), (3, 2)}"
    then have "(0, 2) \<in> {(0 :: int, 1 :: int), (1, 0), (2, 3), (3, 2)}"
      by blast
    then show False by simp
  qed
  then show ?thesis
    by (simp add: init_4_4 possible_moves_position legal_p0)
qed

subsection \<open>C3: the constructor\<close>

text \<open>
  \<^bold>\<open>C3.\<close> The claim: construction fails with \<^verbatim>\<open>InvalidDimensions\<close> exactly when the
  height or the width is odd or not positive, and for even positive dimensions it
  gives a board with exactly four pieces, two of each player, each pair on a
  diagonal of the four centre squares. The constructor tests oddness only, raising
  \<^verbatim>\<open>ValueError('Board dimensions must be even.')\<close>; for even dimensions that are
  not positive it goes on and the first assignment of a centre piece raises
  \<^verbatim>\<open>IndexError\<close> (\<open>init_zero_size\<close>). As amended: construction raises the
  \<^verbatim>\<open>ValueError\<close> exactly when the height or the width is odd; it raises
  \<^verbatim>\<open>IndexError\<close> when both are even and one is not positive; for even positive
  dimensions it succeeds, with \<open>1\<close> on \<open>(h/2-1, w/2-1)\<close> and \<open>(h/2, w/2)\<close>, \<open>-1\<close> on
  \<open>(h/2, w/2-1)\<close> and \<open>(h/2-1, w/2)\<close>, and \<open>0\<close> on every other square.
\<close>

theorem init_dimensions:
  "(init h w = Inl ValueError \<longleftrightarrow> odd h \<or> odd w) \<and>
   (even h \<and> even w \<and> (h \<le> 0 \<or> w \<le> 0) \<longrightarrow> init h w = Inl IndexError) \<and>
   (even h \<and> even w \<and> 0 < h \<and> 0 < w \<longrightarrow>
      (\<exists>g. init h w = Inr g \<and> height g = h \<and> width g = w \<and> curr_player g = 1 \<and>
         shape h w (board g) \<and>
         (\<forall>x y. inside h w (x, y) \<longrightarrow>
            cell (board g) x y =
              (if (x, y) = (h div 2 - 1, w div 2 - 1) \<or> (x, y) = (h div 2, w div 2) then 1
               else if (x, y) = (h div 2, w div 2 - 1) \<or> (x, y) = (h div 2 - 1, w div 2) then - 1
               else 0)) \<and>
         count_cells (\<lambda>c. c \<noteq> 0) (board g) = 4 \<and>
         count_cells (\<lambda>c. c = 1) (board g) = 2 \<and>
         count_cells (\<lambda>c. c = - 1) (board g) = 2))"
proof (intro conjI impI)
  show "init h w = Inl ValueError \<longleftrightarrow> odd h \<or> odd w"
  proof (cases "h mod 2 = 0 \<and> w mod 2 = 0")
    case False
    then show ?thesis
      using init_odd [of h w] by (auto simp: even_iff_mod_2_eq_zero)
  next
    case True
    then have "init h w \<noteq> Inl ValueError"
      using init_even_nonpositive [of h w] init_even_positive [of h w]
      by (cases "h \<le> 0 \<or> w \<le> 0") auto
    then show ?thesis
      using True by (auto simp: even_iff_mod_2_eq_zero)
  qed
next
  assume "even h \<and> even w \<and> (h \<le> 0 \<or> w \<le> 0)"
  then show "init h w = Inl IndexError"
    by (intro init_even_nonpositive) (auto simp: even_iff_mod_2_eq_zero)
next
  assume "even h \<and> even w \<and> 0 < h \<and> 0 < w"
  then have a: "h mod 2 = 0" "w mod 2 = 0" "0 < h" "0 < w"
    by (auto simp: even_iff_mod_2_eq_zero)
  show "\<exists>g. init h w = Inr g \<and> height g = h \<and> width g = w \<and> curr_player g = 1 \<and>
         shape h w (board g) \<and>
         (\<forall>x y. inside h w (x, y) \<longrightarrow>
            cell (board g) x y =
              (if (x, y) = (h div 2 - 1, w div 2 - 1) \<or> (x, y) = (h div 2, w div 2) then 1
               else if (x, y) = (h div 2, w div 2 - 1) \<or> (x, y) = (h div 2 - 1, w div 2) then - 1
               else 0)) \<and>
         count_cells (\<lambda>c. c \<noteq> 0) (board g) = 4 \<and>
         count_cells (\<lambda>c. c = 1) (board g) = 2 \<and>
         count_cells (\<lambda>c. c = - 1) (board g) = 2"
    using shape_start_board [OF a] cell_start_board [OF a] start_board_counts [OF a]
    by (simp add: init_even_positive [OF a])
qed

theorem init_dimensions_witness:
  "init 3 4 = Inl ValueError \<and> init 0 2 = Inl IndexError \<and>
   (\<exists>g. init 4 4 = Inr g \<and> height g = 4 \<and> width g = 4 \<and> curr_player g = 1 \<and>
      cell (board g) 1 1 = 1 \<and> cell (board g) 2 2 = 1 \<and>
      cell (board g) 2 1 = - 1 \<and> cell (board g) 1 2 = - 1 \<and> cell (board g) 0 0 = 0 \<and>
      count_cells (\<lambda>c. c \<noteq> 0) (board g) = 4 \<and>
      count_cells (\<lambda>c. c = 1) (board g) = 2 \<and>
      count_cells (\<lambda>c. c = - 1) (board g) = 2)"
proof -
  have a: "init 3 4 = Inl ValueError"
    using init_dimensions [of 3 4] by simp
  have b: "init 0 2 = Inl IndexError"
    using init_dimensions [of 0 2] by simp
  have "even (4::int) \<and> even (4::int) \<and> (0::int) < 4 \<and> (0::int) < 4"
    by simp
  with init_dimensions [of 4 4] obtain g where g: "init 4 4 = Inr g" "height g = 4" "width g = 4"
    "curr_player g = 1"
    "\<forall>x y. inside 4 4 (x, y) \<longrightarrow>
            cell (board g) x y =
              (if (x, y) = (4 div 2 - 1, 4 div 2 - 1) \<or> (x, y) = (4 div 2, 4 div 2) then 1
               else if (x, y) = (4 div 2, 4 div 2 - 1) \<or> (x, y) = (4 div 2 - 1, 4 div 2) then - 1
               else 0)"
    "count_cells (\<lambda>c. c \<noteq> 0) (board g) = 4"
    "count_cells (\<lambda>c. c = 1) (board g) = 2"
    "count_cells (\<lambda>c. c = - 1) (board g) = 2"
    by blast
  have c: "cell (board g) 1 1 = 1" "cell (board g) 2 2 = 1" "cell (board g) 2 1 = - 1"
    "cell (board g) 1 2 = - 1" "cell (board g) 0 0 = 0"
    using g(5) by (simp_all add: inside_def)
  show ?thesis
    using a b g(1-4,6-8) c by simp
qed

theorem init_zero_size:
  "init 0 0 = Inl IndexError \<and> init 0 0 \<noteq> Inl ValueError \<and>
   init 2 (- 2) = Inl IndexError \<and> init 2 (- 2) \<noteq> Inl ValueError"
  by (simp add: init_even_nonpositive)

subsection \<open>C4: rejected moves\<close>

text \<open>
  \<^bold>\<open>C4.\<close> On every reachable state, a coordinate move outside the board raises
  \<^verbatim>\<open>IndexError('Coordinates out of bounds')\<close>; a move on a square of the board
  whose set in \<^verbatim>\<open>move_dict\<close> is empty, which is to say a square that is not in
  \<^verbatim>\<open>possible_moves\<close>, raises \<^verbatim>\<open>ValueError('Not a valid move')\<close>; and whenever a
  coordinate move raises, the board, the player and the cache are as they were
  before the call (and the exception is one of these two).
\<close>

theorem make_move_rejects:
  assumes "reachable g"
  shows "(\<not> inside (height g) (width g) (i, j) \<longrightarrow>
            make_move g (Some i) (Some j) = Inl (IndexError, g)) \<and>
         (inside (height g) (width g) (i, j) \<longrightarrow>
            (\<exists>s. move_dict g (i, j) = Some s \<and>
                 (s = {} \<longleftrightarrow> (i, j) \<notin> set (possible_moves g)) \<and>
                 (s = {} \<longrightarrow> make_move g (Some i) (Some j) = Inl (ValueError, g)))) \<and>
         (\<forall>e g'. make_move g (Some i) (Some j) = Inl (e, g') \<longrightarrow>
            g' = g \<and> (e = IndexError \<or> e = ValueError))"
proof -
  from assms have "game_inv g" by (rule reachable_game_inv)
  from cached_lookup [OF this] obtain b where
    md: "move_dict g = (\<lambda>k. if inside (height g) (width g) k
                 then Some (captures b (height g) (width g) k) else None)"
    and pm: "possible_moves g = filter (\<lambda>k. captures b (height g) (width g) k \<noteq> {})
                 (squares (height g) (width g))"
    by blast
  have 1: "\<not> inside (height g) (width g) (i, j) \<longrightarrow>
            make_move g (Some i) (Some j) = Inl (IndexError, g)"
    by (auto simp: make_move_def inside_def)
  have 2: "inside (height g) (width g) (i, j) \<longrightarrow>
            (\<exists>s. move_dict g (i, j) = Some s \<and>
                 (s = {} \<longleftrightarrow> (i, j) \<notin> set (possible_moves g)) \<and>
                 (s = {} \<longrightarrow> make_move g (Some i) (Some j) = Inl (ValueError, g)))"
    by (auto simp: md pm set_squares make_move_def inside_def)
  have 3: "\<forall>e g'. make_move g (Some i) (Some j) = Inl (e, g') \<longrightarrow>
            g' = g \<and> (e = IndexError \<or> e = ValueError)"
    by (auto simp: make_move_def md Let_def inside_def split: if_splits)
  from 1 2 3 show ?thesis by blast
qed

theorem make_move_rejects_witness:
  "\<exists>g. init 4 4 = Inr g \<and> reachable g \<and>
     make_move g (Some 4) (Some 0) = Inl (IndexError, g) \<and>
     make_move g (Some 0) (Some (- 1)) = Inl (IndexError, g) \<and>
     (0, 0) \<notin> set (possible_moves g) \<and> move_dict g (0, 0) = Some {} \<and>
     make_move g (Some 0) (Some 0) = Inl (ValueError, g)"
  (is "\<exists>g. ?P g")
proof -
  let ?g = "position 4 4 [[0, 0, 0, 0], [0, 1, - 1, 0], [0, - 1, 1, 0], [0, 0, 0, 0]] 1"
  have nm: "(0, 0) \<notin> set (possible_moves ?g)"
    by (simp add: possible_moves_position legal_p0)
  have "\<not> inside (height ?g) (width ?g) (4, 0)" "\<not> inside (height ?g) (width ?g) (0, - 1)"
    "inside (height ?g) (width ?g) (0, 0)"
    by (simp_all add: inside_def)
  then have "?P ?g"
    using init_4_4 reachable_4_4 nm make_move_rejects [OF reachable_4_4, of 4 0]
      make_move_rejects [OF reachable_4_4, of 0 "- 1"] make_move_rejects [OF reachable_4_4, of 0 0]
    by auto
  then show ?thesis
    by blast
qed

subsection \<open>C5: a legal move\<close>

text \<open>
  \<^bold>\<open>C5.\<close> On every reachable state, a move on a square of \<^verbatim>\<open>possible_moves\<close>
  succeeds; afterwards every square of the set that \<^verbatim>\<open>move_dict\<close> held for the
  move, and the square played, hold \<open>-1\<close> (a piece of the opponent of the player
  now to move), and \<^verbatim>\<open>curr_player\<close> is the other player.
\<close>

theorem make_move_captures:
  assumes "reachable g" "(i, j) \<in> set (possible_moves g)"
  shows "\<exists>s g'. move_dict g (i, j) = Some s \<and> s \<noteq> {} \<and>
           make_move g (Some i) (Some j) = Inr g' \<and>
           (\<forall>(x, y) \<in> s. cell (board g') x y = - 1) \<and>
           cell (board g') i j = - 1 \<and>
           curr_player g' = - curr_player g \<and> curr_player g' \<noteq> curr_player g"
proof -
  from assms(1) have inv: "game_inv g" by (rule reachable_game_inv)
  from cached_lookup [OF this] obtain b where
    md: "move_dict g = (\<lambda>k. if inside (height g) (width g) k
                 then Some (captures b (height g) (width g) k) else None)"
    and pm: "possible_moves g = filter (\<lambda>k. captures b (height g) (width g) k \<noteq> {})
                 (squares (height g) (width g))"
    by blast
  let ?s = "captures b (height g) (width g) (i, j)"
  let ?b1 = "set_cell (board g) i j 1"
  let ?g' = "(update_move_dict (flip_board (g\<lparr>board := set_cells ?b1 ?s 1\<rparr>)))
              \<lparr>curr_player := curr_player g * - 1\<rparr>"
  have ins: "inside (height g) (width g) (i, j)" and ne: "?s \<noteq> {}"
    using assms(2) by (auto simp: pm set_squares)
  have look: "move_dict g (i, j) = Some ?s"
    using ins by (simp add: md)
  have mv: "make_move g (Some i) (Some j) = Inr ?g'"
    using ins ne by (simp add: make_move_def look Let_def inside_def)
  have sh: "shape (height g) (width g) (board g)"
    using inv by (simp add: game_inv_def)
  have sh1: "shape (height g) (width g) ?b1"
    using sh ins by (rule shape_set_cell)
  have sh2: "shape (height g) (width g) (set_cells ?b1 ?s 1)"
    using sh1 by (rule shape_set_cells)
  have cellv: "cell (board ?g') x y = - (if (x, y) \<in> ?s then 1 else cell ?b1 x y)"
    if "inside (height g) (width g) (x, y)" for x y
    using that by (simp add: cell_flip [OF sh2 that] cell_set_cells [OF sh1 that])
  have caps: "\<forall>(x, y) \<in> ?s. cell (board ?g') x y = - 1"
    using cellv captures_inside [of _ b "height g" "width g" "(i, j)"] by auto
  have tgt: "cell (board ?g') i j = - 1"
    using cellv [OF ins] cell_set_cell [OF sh ins ins] by simp
  have cp: "curr_player ?g' = - curr_player g" "curr_player ?g' \<noteq> curr_player g"
    using inv by (auto simp: game_inv_def)
  show ?thesis
    using look ne mv caps tgt cp by blast
qed

theorem make_move_captures_witness:
  "\<exists>g g'. init 4 4 = Inr g \<and> reachable g \<and> (0, 2) \<in> set (possible_moves g) \<and>
     move_dict g (0, 2) = Some {(1, 2)} \<and> make_move g (Some 0) (Some 2) = Inr g' \<and>
     cell (board g') 1 2 = - 1 \<and> cell (board g') 0 2 = - 1 \<and>
     curr_player g = 1 \<and> curr_player g' = - 1"
  (is "\<exists>g g'. ?P g g'")
proof -
  let ?g = "position 4 4 [[0, 0, 0, 0], [0, 1, - 1, 0], [0, - 1, 1, 0], [0, 0, 0, 0]] 1"
  have m: "(0, 2) \<in> set (possible_moves ?g)"
    by (simp add: possible_moves_position legal_p0)
  have md: "move_dict ?g (0, 2) = Some {(1, 2)}"
    by (simp add: move_dict_position inside_def captures_p0_0_2)
  from make_move_captures [OF reachable_4_4 m] md
  obtain g' where "make_move ?g (Some 0) (Some 2) = Inr g'"
    "\<forall>(x, y) \<in> {(1, 2)}. cell (board g') x y = - 1" "cell (board g') 0 2 = - 1"
    "curr_player g' = - curr_player ?g"
    by auto
  then have "?P ?g g'"
    using init_4_4 reachable_4_4 m md by simp
  then show ?thesis
    by blast
qed

subsection \<open>C6 and C7: \<^verbatim>\<open>check_winner\<close>\<close>

text \<open>
  Lemma \<open>check_winner_result\<close> gives what \<^verbatim>\<open>check_winner\<close> returns on any state: the
  test for the player to move reads the list the object holds, the test for the
  opponent computes the moves on the flipped board.
\<close>

text \<open>
  \<^bold>\<open>C6.\<close> The claim: \<^verbatim>\<open>check_winner\<close> returns \<open>(False, 0)\<close> whenever the player to
  move has a legal move, and whenever that player has none and the opponent has
  one; it returns \<open>(True, w)\<close> only when neither has a move, \<open>w\<close> following the sign
  of the sum of the board. This holds on a state whose cache was computed for its
  board (lemma \<open>check_winner_fresh\<close>). After a pass it was not (C1). In the game
  below, on the 4 x 4 board, the first player is to move in \<open>g4\<close> and has no move;
  the second player has four.
  \<^verbatim>\<open>check_winner\<close> returns \<open>(False, 0)\<close> there. The first player passes. In the
  state \<open>g5\<close> after the pass the second player is to move and has the four moves,
  and \<^verbatim>\<open>check_winner\<close> returns \<open>(True, 1)\<close>: it reads the empty list of the player
  who passed, then finds no move for that same player on the flipped board.
\<close>

theorem check_winner_after_pass:
  "\<exists>g0 g1 g2 g3 g4 g5.
     init 4 4 = Inr g0 \<and>
     make_move g0 (Some 0) (Some 2) = Inr g1 \<and>
     make_move g1 (Some 0) (Some 1) = Inr g2 \<and>
     make_move g2 (Some 2) (Some 0) = Inr g3 \<and>
     make_move g3 (Some 0) (Some 3) = Inr g4 \<and>
     board g4 = [[0, - 1, - 1, - 1], [0, 1, 1, 0], [1, 1, 1, 0], [0, 0, 0, 0]] \<and>
     legal g4 = [] \<and> fst (check_winner g4) = (False, 0) \<and>
     make_move g4 None None = Inr g5 \<and>
     board g5 = [[0, 1, 1, 1], [0, - 1, - 1, 0], [- 1, - 1, - 1, 0], [0, 0, 0, 0]] \<and>
     curr_player g5 = - 1 \<and>
     legal g5 = [(2, 3), (3, 0), (3, 1), (3, 2)] \<and>
     fst (check_winner g5) = (True, 1)"
  (is "\<exists>g0 g1 g2 g3 g4 g5. ?P g0 g1 g2 g3 g4 g5")
proof -
  let ?g0 = "position 4 4 [[0, 0, 0, 0], [0, 1, - 1, 0], [0, - 1, 1, 0], [0, 0, 0, 0]] 1"
  let ?g1 = "position 4 4 [[0, 0, - 1, 0], [0, - 1, - 1, 0], [0, 1, - 1, 0], [0, 0, 0, 0]] (- 1)"
  let ?g2 = "position 4 4 [[0, - 1, 1, 0], [0, - 1, 1, 0], [0, - 1, 1, 0], [0, 0, 0, 0]] 1"
  let ?g3 = "position 4 4 [[0, 1, - 1, 0], [0, - 1, - 1, 0], [- 1, - 1, - 1, 0], [0, 0, 0, 0]] (- 1)"
  let ?g4 = "position 4 4 [[0, - 1, - 1, - 1], [0, 1, 1, 0], [1, 1, 1, 0], [0, 0, 0, 0]] 1"
  let ?g5 = "?g4\<lparr>board := [[0, 1, 1, 1], [0, - 1, - 1, 0], [- 1, - 1, - 1, 0], [0, 0, 0, 0]],
                curr_player := - 1\<rparr>"
  have l4: "legal ?g4 = []"
    by (simp add: legal_position legal_p4)
  have c4: "fst (check_winner ?g4) = (False, 0)"
    by (simp add: check_winner_result flip_board_def legal_board legal_p5)
  have l5: "legal ?g5 = [(2, 3), (3, 0), (3, 1), (3, 2)]"
    by (simp add: legal_board legal_p5)
  have c5: "fst (check_winner ?g5) = (True, 1)"
    by (simp add: check_winner_result possible_moves_position flip_board_def legal_board legal_p4)
  have "?P ?g0 ?g1 ?g2 ?g3 ?g4 ?g5"
    using game_4_4 l4 c4 l5 c5 by simp
  then show ?thesis
    by blast
qed

theorem check_winner_after_pass_witness:
  "\<exists>g0 g1 g2 g3 g4 g5.
     init 4 4 = Inr g0 \<and>
     make_move g0 (Some 0) (Some 2) = Inr g1 \<and>
     make_move g1 (Some 0) (Some 1) = Inr g2 \<and>
     make_move g2 (Some 2) (Some 0) = Inr g3 \<and>
     make_move g3 (Some 0) (Some 3) = Inr g4 \<and>
     make_move g4 None None = Inr g5 \<and>
     legal g5 \<noteq> [] \<and> fst (fst (check_winner g5))"
proof -
  from check_winner_after_pass obtain g0 g1 g2 g3 g4 g5 where
    "init 4 4 = Inr g0" "make_move g0 (Some 0) (Some 2) = Inr g1"
    "make_move g1 (Some 0) (Some 1) = Inr g2" "make_move g2 (Some 2) (Some 0) = Inr g3"
    "make_move g3 (Some 0) (Some 3) = Inr g4" "make_move g4 None None = Inr g5"
    "legal g5 = [(2, 3), (3, 0), (3, 1), (3, 2)]" "fst (check_winner g5) = (True, 1)"
    by blast
  then have "init 4 4 = Inr g0 \<and> make_move g0 (Some 0) (Some 2) = Inr g1 \<and>
     make_move g1 (Some 0) (Some 1) = Inr g2 \<and> make_move g2 (Some 2) (Some 0) = Inr g3 \<and>
     make_move g3 (Some 0) (Some 3) = Inr g4 \<and> make_move g4 None None = Inr g5 \<and>
     legal g5 \<noteq> [] \<and> fst (fst (check_winner g5))"
    by simp
  then show ?thesis
    by blast
qed

text \<open>
  \<^bold>\<open>C7.\<close> The claim: \<^verbatim>\<open>check_winner\<close> leaves the board, the player and the cache as
  they were before the call. On a state whose cache was computed for its board
  this holds (lemma \<open>check_winner_frame\<close>). When the list the object holds is
  empty, \<^verbatim>\<open>check_winner\<close> flips the board back and calls \<^verbatim>\<open>update_move_dict\<close> once
  more, which computes the cache for the board; after a pass (C1) that is not the
  cache the object held. In the game of C6, \<^verbatim>\<open>check_winner\<close> on the state \<open>g5\<close> after
  the pass replaces the empty \<^verbatim>\<open>possible_moves\<close> by the four moves of the second
  player.
\<close>

theorem check_winner_rewrites_cache:
  "\<exists>g0 g1 g2 g3 g4 g5.
     init 4 4 = Inr g0 \<and>
     make_move g0 (Some 0) (Some 2) = Inr g1 \<and>
     make_move g1 (Some 0) (Some 1) = Inr g2 \<and>
     make_move g2 (Some 2) (Some 0) = Inr g3 \<and>
     make_move g3 (Some 0) (Some 3) = Inr g4 \<and>
     make_move g4 None None = Inr g5 \<and>
     possible_moves g5 = [] \<and>
     possible_moves (snd (check_winner g5)) = [(2, 3), (3, 0), (3, 1), (3, 2)] \<and>
     move_dict g5 (3, 1) = Some {} \<and>
     move_dict (snd (check_winner g5)) (3, 1) = Some {(2, 1), (1, 1)} \<and>
     snd (check_winner g5) \<noteq> g5"
  (is "\<exists>g0 g1 g2 g3 g4 g5. ?P g0 g1 g2 g3 g4 g5")
proof -
  let ?g0 = "position 4 4 [[0, 0, 0, 0], [0, 1, - 1, 0], [0, - 1, 1, 0], [0, 0, 0, 0]] 1"
  let ?g1 = "position 4 4 [[0, 0, - 1, 0], [0, - 1, - 1, 0], [0, 1, - 1, 0], [0, 0, 0, 0]] (- 1)"
  let ?g2 = "position 4 4 [[0, - 1, 1, 0], [0, - 1, 1, 0], [0, - 1, 1, 0], [0, 0, 0, 0]] 1"
  let ?g3 = "position 4 4 [[0, 1, - 1, 0], [0, - 1, - 1, 0], [- 1, - 1, - 1, 0], [0, 0, 0, 0]] (- 1)"
  let ?g4 = "position 4 4 [[0, - 1, - 1, - 1], [0, 1, 1, 0], [1, 1, 1, 0], [0, 0, 0, 0]] 1"
  let ?g5 = "?g4\<lparr>board := [[0, 1, 1, 1], [0, - 1, - 1, 0], [- 1, - 1, - 1, 0], [0, 0, 0, 0]],
                curr_player := - 1\<rparr>"
  have c4: "captures [[0, - 1, - 1, - 1], [0, 1, 1, 0], [1, 1, 1, 0], [0, 0, 0, 0]] 4 4 (3, 1) = {}"
    by code_simp
  have c5: "captures [[0, 1, 1, 1], [0, - 1, - 1, 0], [- 1, - 1, - 1, 0], [0, 0, 0, 0]] 4 4 (3, 1) = {(2, 1), (1, 1)}"
    by code_simp
  have pm: "possible_moves ?g5 = []"
    by (simp add: possible_moves_position legal_p4)
  have pm': "possible_moves (snd (check_winner ?g5)) = [(2, 3), (3, 0), (3, 1), (3, 2)]"
    by (simp add: check_winner_state pm possible_moves_update legal_p5)
  have md: "move_dict ?g5 (3, 1) = Some {}"
    by (simp add: move_dict_position inside_def c4)
  have md': "move_dict (snd (check_winner ?g5)) (3, 1) = Some {(2, 1), (1, 1)}"
    by (simp add: check_winner_state pm move_dict_update inside_def c5)
  have ne: "snd (check_winner ?g5) \<noteq> ?g5"
    using pm pm' by (metis list.distinct(1))
  have "?P ?g0 ?g1 ?g2 ?g3 ?g4 ?g5"
    using game_4_4 pm pm' md md' ne by simp
  then show ?thesis
    by blast
qed

theorem check_winner_rewrites_cache_witness:
  "\<exists>g0 g1 g2 g3 g4 g5.
     init 4 4 = Inr g0 \<and>
     make_move g0 (Some 0) (Some 2) = Inr g1 \<and>
     make_move g1 (Some 0) (Some 1) = Inr g2 \<and>
     make_move g2 (Some 2) (Some 0) = Inr g3 \<and>
     make_move g3 (Some 0) (Some 3) = Inr g4 \<and>
     make_move g4 None None = Inr g5 \<and>
     possible_moves (snd (check_winner g5)) \<noteq> possible_moves g5"
proof -
  from check_winner_rewrites_cache obtain g0 g1 g2 g3 g4 g5 where
    "init 4 4 = Inr g0" "make_move g0 (Some 0) (Some 2) = Inr g1"
    "make_move g1 (Some 0) (Some 1) = Inr g2" "make_move g2 (Some 2) (Some 0) = Inr g3"
    "make_move g3 (Some 0) (Some 3) = Inr g4" "make_move g4 None None = Inr g5"
    "possible_moves g5 = []"
    "possible_moves (snd (check_winner g5)) = [(2, 3), (3, 0), (3, 1), (3, 2)]"
    by blast
  then have "init 4 4 = Inr g0 \<and> make_move g0 (Some 0) (Some 2) = Inr g1 \<and>
     make_move g1 (Some 0) (Some 1) = Inr g2 \<and> make_move g2 (Some 2) (Some 0) = Inr g3 \<and>
     make_move g3 (Some 0) (Some 3) = Inr g4 \<and> make_move g4 None None = Inr g5 \<and>
     possible_moves (snd (check_winner g5)) \<noteq> possible_moves g5"
    by simp
  then show ?thesis
    by blast
qed

subsection \<open>C8: two passes\<close>

text \<open>
  \<^bold>\<open>C8.\<close> On a reachable state where the player to move has no legal move on the
  board, after a pass that leaves a state where the player then to move has no
  legal move either, and a second pass, \<^verbatim>\<open>check_winner\<close> returns \<open>True\<close> with the
  player to move when that player holds more pieces than the opponent, the
  opponent when fewer, and \<open>0\<close> (a draw) when as many.
\<close>

theorem double_pass_terminal:
  assumes "reachable g"
    and "legal g = []"
    and "make_move g None None = Inr g1"
    and "legal g1 = []"
    and "make_move g1 None None = Inr g2"
  shows "fst (check_winner g2) =
           (True,
            if count_cells (\<lambda>c. c = 1) (board g2) > count_cells (\<lambda>c. c = - 1) (board g2)
            then curr_player g2
            else if count_cells (\<lambda>c. c = 1) (board g2) < count_cells (\<lambda>c. c = - 1) (board g2)
            then - curr_player g2
            else 0)"
proof -
  from assms(1) have inv: "game_inv g" by (rule reachable_game_inv)
  have g1: "g1 = (flip_board g)\<lparr>curr_player := curr_player g * - 1\<rparr>"
    using assms(3) by (simp add: make_move_pass)
  have g2: "g2 = (flip_board g1)\<lparr>curr_player := curr_player g1 * - 1\<rparr>"
    using assms(5) by (simp add: make_move_pass)
  have b2: "board g2 = board g"
    by (simp add: g2 g1 comp_def)
  have l1: "legal (flip_board g) = []"
    using assms(4) legal_cong [of g1 "flip_board g"] by (simp add: g1)
  have "legal (g\<lparr>board := board g\<rparr>) = []"
    using assms(2) by simp
  moreover have "legal (g\<lparr>board := map (\<lambda>j. map (\<lambda>i. - i) j) (board g)\<rparr>) = []"
    using l1 legal_cong [of "g\<lparr>board := map (\<lambda>j. map (\<lambda>i. - i) j) (board g)\<rparr>" "flip_board g"]
    by simp
  ultimately have pm: "possible_moves g = []"
    using inv cached_possible_moves [of g] by (auto simp: game_inv_def)
  have pm2: "possible_moves g2 = []"
    by (simp add: g2 g1 pm)
  have l2: "legal (flip_board g2) = []"
    using l1 legal_cong [of "flip_board g2" "flip_board g"] by (simp add: g2 g1 comp_def)
  have ok: "cells_ok (board g2)"
    using inv by (simp add: game_inv_def b2)
  show ?thesis
    by (simp add: check_winner_result pm2 l2 Let_def board_sum [OF ok])
qed

theorem double_pass_terminal_witness:
  "(\<exists>g g1 g2. reachable g \<and>
      board g = [[- 1, - 1, - 1, 1], [- 1, - 1, - 1, 0], [- 1, - 1, - 1, 1], [- 1, 0, - 1, 0]] \<and>
      curr_player g = - 1 \<and> legal g = [] \<and>
      make_move g None None = Inr g1 \<and> legal g1 = [] \<and>
      make_move g1 None None = Inr g2 \<and>
      count_cells (\<lambda>c. c = 1) (board g2) = 2 \<and> count_cells (\<lambda>c. c = - 1) (board g2) = 11 \<and>
      fst (check_winner g2) = (True, 1)) \<and>
   (\<exists>g g1 g2. init 2 2 = Inr g \<and> reachable g \<and> legal g = [] \<and>
      make_move g None None = Inr g1 \<and> legal g1 = [] \<and>
      make_move g1 None None = Inr g2 \<and>
      count_cells (\<lambda>c. c = 1) (board g2) = 2 \<and> count_cells (\<lambda>c. c = - 1) (board g2) = 2 \<and>
      fst (check_winner g2) = (True, 0))"
  (is "(\<exists>g g1 g2. ?P g g1 g2) \<and> (\<exists>g g1 g2. ?Q g g1 g2)")
proof
  let ?g = "position 4 4 [[- 1, - 1, - 1, 1], [- 1, - 1, - 1, 0], [- 1, - 1, - 1, 1], [- 1, 0, - 1, 0]] (- 1)"
  let ?g1 = "?g\<lparr>board := [[1, 1, 1, - 1], [1, 1, 1, 0], [1, 1, 1, - 1], [1, 0, 1, 0]], curr_player := 1\<rparr>"
  let ?g2 = "?g1\<lparr>board := [[- 1, - 1, - 1, 1], [- 1, - 1, - 1, 0], [- 1, - 1, - 1, 1], [- 1, 0, - 1, 0]],
               curr_player := - 1\<rparr>"
  have l: "legal ?g = []"
    by (simp add: legal_position legal_end_4_4)
  have p1: "make_move ?g None None = Inr ?g1"
    by (simp add: pass_position)
  have l1: "legal ?g1 = []"
    by (simp add: legal_board legal_end_4_4)
  have p2: "make_move ?g1 None None = Inr ?g2"
    by (simp add: make_move_def flip_board_def)
  have n: "count_cells (\<lambda>c. c = 1) (board ?g2) = 2" "count_cells (\<lambda>c. c = - 1) (board ?g2) = 11"
    by (simp_all add: count_cells_def)
  from double_pass_terminal [OF reachable_end_4_4 l p1 l1 p2] n
  have "fst (check_winner ?g2) = (True, 1)"
    by simp
  then have "?P ?g ?g1 ?g2"
    using reachable_end_4_4 l p1 l1 p2 n by simp
  then show "\<exists>g g1 g2. ?P g g1 g2"
    by blast
next
  let ?g = "position 2 2 [[1, - 1], [- 1, 1]] 1"
  let ?g1 = "?g\<lparr>board := [[- 1, 1], [1, - 1]], curr_player := - 1\<rparr>"
  let ?g2 = "?g1\<lparr>board := [[1, - 1], [- 1, 1]], curr_player := 1\<rparr>"
  have r: "reachable ?g"
    using init_2_2 by (rule reachable_init)
  have l: "legal ?g = []"
    by (simp add: legal_position legal_2_2)
  have p1: "make_move ?g None None = Inr ?g1"
    by (simp add: pass_position)
  have l1: "legal ?g1 = []"
    by (simp add: legal_board legal_2_2)
  have p2: "make_move ?g1 None None = Inr ?g2"
    by (simp add: make_move_def flip_board_def)
  have n: "count_cells (\<lambda>c. c = 1) (board ?g2) = 2" "count_cells (\<lambda>c. c = - 1) (board ?g2) = 2"
    by (simp_all add: count_cells_def)
  from double_pass_terminal [OF r l p1 l1 p2] n
  have "fst (check_winner ?g2) = (True, 0)"
    by simp
  then have "?Q ?g ?g1 ?g2"
    using init_2_2 r l p1 l1 p2 n by simp
  then show "\<exists>g g1 g2. ?Q g g1 g2"
    by blast
qed

subsection \<open>C9: flipping twice\<close>

text \<open>
  \<^bold>\<open>C9.\<close> \<^verbatim>\<open>flip_board\<close> applied twice gives back the board it started from, square
  for square (and touches nothing else of the state).
\<close>

theorem flip_board_twice: "flip_board (flip_board g) = g"
  by (simp add: flip_board_def comp_def)

subsection \<open>C10: one coordinate \<^verbatim>\<open>None\<close>\<close>

text \<open>
  \<^bold>\<open>C10.\<close> The claim: a call \<^verbatim>\<open>make_move(i, j)\<close> with exactly one of \<open>i\<close>, \<open>j\<close> equal to
  \<^verbatim>\<open>None\<close> is not a pass, does not raise the out-of-bounds \<^verbatim>\<open>IndexError\<close>, and raises
  \<^verbatim>\<open>TypeError\<close> with the state untouched. The tests of the bounds are made from
  left to right: with \<open>j\<close> \<^verbatim>\<open>None\<close> and \<open>i\<close> an integer outside \<open>0 .. height - 1\<close>
  the test on \<open>i\<close> is true first and the call raises the \<^verbatim>\<open>IndexError\<close>
  (\<open>make_move_None_out_of_range\<close>). As amended: the call is never a pass and never
  changes the state; it raises \<^verbatim>\<open>TypeError\<close> when \<open>i\<close> is \<^verbatim>\<open>None\<close>, and when \<open>j\<close> is
  \<^verbatim>\<open>None\<close> and \<open>0 \<le> i \<le> height - 1\<close>; it raises \<^verbatim>\<open>IndexError\<close> when \<open>j\<close> is
  \<^verbatim>\<open>None\<close> and \<open>i\<close> is outside that range.
\<close>

theorem make_move_one_None:
  "make_move g None (Some j) = Inl (TypeError, g) \<and>
   (0 \<le> i \<and> i \<le> height g - 1 \<longrightarrow> make_move g (Some i) None = Inl (TypeError, g)) \<and>
   (i < 0 \<or> i > height g - 1 \<longrightarrow> make_move g (Some i) None = Inl (IndexError, g))"
  by (auto simp: make_move_def)

theorem make_move_one_None_witness:
  "\<exists>g. init 4 4 = Inr g \<and>
     make_move g None (Some 0) = Inl (TypeError, g) \<and>
     make_move g (Some 1) None = Inl (TypeError, g) \<and>
     make_move g (Some 7) None = Inl (IndexError, g)"
  (is "\<exists>g. ?P g")
proof -
  let ?g = "position 4 4 [[0, 0, 0, 0], [0, 1, - 1, 0], [0, - 1, 1, 0], [0, 0, 0, 0]] 1"
  have "?P ?g"
    using init_4_4 make_move_one_None [of ?g 0 1] make_move_one_None [of ?g 0 7]
    by simp
  then show ?thesis
    by blast
qed

theorem make_move_None_out_of_range:
  "\<exists>g. init 4 4 = Inr g \<and>
     make_move g (Some (- 1)) None = Inl (IndexError, g) \<and>
     make_move g (Some 4) None = Inl (IndexError, g)"
  by (simp add: init_4_4 make_move_def)

end
